theory Spec2Isabelle
  imports Main "HOL-Library.Char_ord"
begin

section \<open>go-cfgreader: a shallow embedding of the configuration loader\<close>

text \<open>
  The theory follows \<^verbatim>\<open>cfgreader.go\<close> and \<^verbatim>\<open>common.go\<close>. Go strings are byte
  strings (\<^typ>\<open>string\<close>), Go maps are partial functions, a Go map that is iterated is the
  association list of its entries in the order the iteration visits them, \<^verbatim>\<open>int64\<close> sizes
  are integers (they are only compared), and an \<^verbatim>\<open>error\<close> is a value of the datatype
  \<open>error\<close>. A run-time panic is the outcome \<open>Panic\<close>. The logger is left out: the code
  only writes to it (it is taken to be a usable logger, as \<^verbatim>\<open>slog.Default()\<close> is).
\<close>

subsection \<open>The standard library's string functions\<close>

text \<open>
  \<^verbatim>\<open>strings.LastIndex(s, ".")\<close> with a one-byte pattern: the loop of
  \<^verbatim>\<open>LastIndexByte\<close>, from the end of the string down to index 0; \<open>-1\<close> when the
  byte does not occur.
\<close>

fun lastIndexFrom :: "string \<Rightarrow> char \<Rightarrow> nat \<Rightarrow> int" where
  "lastIndexFrom s c 0 = - 1"
| "lastIndexFrom s c (Suc i) = (if s ! i = c then int i else lastIndexFrom s c i)"

definition LastIndex :: "string \<Rightarrow> char \<Rightarrow> int" where
  "LastIndex s c = lastIndexFrom s c (length s)"

text \<open>
  \<^verbatim>\<open>filepath.Ext\<close> (Unix): the loop
  \<^verbatim>\<open>for i := len(path) - 1; i >= 0 && !os.IsPathSeparator(path[i]); i-- {
    if path[i] == '.' { return path[i:] } }; return ""\<close>.
  The counter of \<open>extFrom\<close> is \<open>i + 1\<close>.
\<close>

fun extFrom :: "string \<Rightarrow> nat \<Rightarrow> string" where
  "extFrom path 0 = []"
| "extFrom path (Suc i) =
     (if path ! i = CHR ''/'' then []
      else if path ! i = CHR ''.'' then drop i path
      else extFrom path i)"

definition Ext :: "string \<Rightarrow> string" where
  "Ext path = extFrom path (length path)"

text \<open>
  \<^verbatim>\<open>strings.ToLower\<close>: on a string of ASCII bytes only (every byte below
  \<^verbatim>\<open>utf8.RuneSelf = 0x80\<close>) each byte in \<open>'A'..'Z'\<close> is moved by
  \<open>'a' - 'A' = 32\<close>; any other string goes through the Unicode tables
  (\<^verbatim>\<open>Map(unicode.ToLower, s)\<close>), which are a parameter here.
\<close>

definition lowerByte :: "char \<Rightarrow> char" where
  "lowerByte c =
     (if CHR ''A'' \<le> c \<and> c \<le> CHR ''Z'' then char_of (of_char c + (32::nat)) else c)"

definition isASCII :: "string \<Rightarrow> bool" where
  "isASCII s = list_all (\<lambda>c. c < CHR 0x80) s"

definition ToLower :: "(string \<Rightarrow> string) \<Rightarrow> string \<Rightarrow> string" where
  "ToLower unicodeLower s = (if isASCII s then map lowerByte s else unicodeLower s)"

subsection \<open>common.go\<close>

definition baseName :: "string \<Rightarrow> string" where
  "baseName filename =
     (let lastDotIndex = LastIndex filename (CHR ''.'')
      in if lastDotIndex \<noteq> - 1 \<and> lastDotIndex \<noteq> 0
         then take (nat lastDotIndex) filename
         else filename)"

subsection \<open>Errors, outcomes and the operating system\<close>

text \<open>
  One constructor for each error the package builds (the format string of its
  \<^verbatim>\<open>fmt.Errorf\<close> is given), and \<open>External\<close> for an error that comes from the
  operating system or from a deserializer.
\<close>

datatype error =
    External string
  | IsDirectory                  \<comment> \<open>\<^verbatim>\<open>path is a directory\<close>\<close>
  | TooLarge int int             \<comment> \<open>\<^verbatim>\<open>file size %d exceeds maximum allowed size %d\<close>\<close>
  | UnsupportedFormat            \<comment> \<open>\<^verbatim>\<open>unsupported file format\<close>\<close>
  | ReadError error              \<comment> \<open>\<^verbatim>\<open>failed to read file: %w\<close>\<close>
  | NoRegisteredFormat string    \<comment> \<open>\<^verbatim>\<open>no registered format: %s\<close>\<close>
  | ParseError string error      \<comment> \<open>\<^verbatim>\<open>failed to unmarshal %s: %w\<close>\<close>
  | InfoError string error       \<comment> \<open>\<^verbatim>\<open>strict mode: failed to get info for %s: %w\<close>\<close>
  | ProcessError string error    \<comment> \<open>\<^verbatim>\<open>strict mode: failed to process %s: %w\<close>\<close>
  | DuplicateName string string  \<comment> \<open>\<^verbatim>\<open>strict mode: duplicate service name '%s' in file %s\<close>\<close>
  | AccessError string error     \<comment> \<open>\<^verbatim>\<open>strict mode: failed to access %s: %w\<close>\<close>
  | ReadDirError error           \<comment> \<open>\<^verbatim>\<open>failed to read directory: %w\<close>\<close>
  | PathInaccessible error       \<comment> \<open>\<^verbatim>\<open>configuration directory inaccessible: %w\<close>\<close>
  | NotADirectory                \<comment> \<open>\<^verbatim>\<open>path is not a directory, use ReadFile instead\<close>\<close>

datatype 'a outcome = Panic | Return 'a

text \<open>\<^verbatim>\<open>fs.FileInfo\<close> and \<^verbatim>\<open>fs.DirEntry\<close>, by the methods the code calls.\<close>

record FileInfo =
  info_Name :: string
  info_IsDir :: bool
  info_Size :: int

record DirEntry =
  entry_Name :: string
  entry_IsDir :: bool
  entry_Info :: "error + FileInfo"

text \<open>
  What \<^verbatim>\<open>filepath.WalkDir\<close> meets below a root: an entry, and for a directory the
  entries and the error that \<^verbatim>\<open>os.ReadDir\<close> returns for it (both can be present:
  \<^verbatim>\<open>os.ReadDir\<close> returns the entries it read before the error).
\<close>

datatype fstree = Node DirEntry "fstree list" "error option"

fun root_entry :: "fstree \<Rightarrow> DirEntry" where
  "root_entry (Node d dirs rderr) = d"

text \<open>
  The environment of a call: the answers of the operating system and of the libraries.
  \<open>walk_root root\<close> is the result of \<^verbatim>\<open>os.Lstat(root)\<close> in \<^verbatim>\<open>WalkDir\<close>, as
  an entry with the tree the walk finds below it.
\<close>

record 'v env =
  os_Stat :: "string \<Rightarrow> error + FileInfo"
  os_ReadFile :: "string \<Rightarrow> error + string"
  os_ReadDir :: "string \<Rightarrow> DirEntry list \<times> error option"
  walk_root :: "string \<Rightarrow> error + fstree"
  filepath_Join :: "string \<Rightarrow> string \<Rightarrow> string"
  filepath_Dir :: "string \<Rightarrow> string"
  unicode_ToLower :: "string \<Rightarrow> string"
  yaml_Unmarshal :: "string \<Rightarrow> error + 'v"
  json_Unmarshal :: "string \<Rightarrow> error + 'v"

subsection \<open>Formats and the reader\<close>

type_synonym ConfigFormat = int

definition FormatUnknown :: ConfigFormat where "FormatUnknown = 0"
definition FormatYAML :: ConfigFormat where "FormatYAML = 1"
definition FormatJSON :: ConfigFormat where "FormatJSON = 2"

text \<open>
  \<open>Unmarshal\<close> fills a zero value of the target type and returns an error: here it
  returns the error or the filled value. A \<^verbatim>\<open>nil\<close> function is \<open>None\<close>.
\<close>

record 'v FormatData =
  Name :: string
  Extensions :: "string list"
  Unmarshal :: "(string \<Rightarrow> error + 'v) option"

type_synonym 'v FormatMap = "(ConfigFormat \<times> 'v FormatData) list"

definition DefaultFormats :: "'v env \<Rightarrow> 'v FormatMap" where
  "DefaultFormats env =
     [(FormatUnknown, \<lparr>Name = ''unknown'', Extensions = [''''], Unmarshal = None\<rparr>),
      (FormatYAML, \<lparr>Name = ''yaml'', Extensions = [''.yaml'', ''.yml''],
         Unmarshal = Some (yaml_Unmarshal env)\<rparr>),
      (FormatJSON, \<lparr>Name = ''json'', Extensions = [''.json''],
         Unmarshal = Some (json_Unmarshal env)\<rparr>)]"

record 'v ConfigReader =
  defaultPath :: string
  supportedExts :: "string \<rightharpoonup> ConfigFormat"
  formats :: "ConfigFormat \<rightharpoonup> 'v FormatData"
  strictMode :: bool
  maxFileSize :: int
  recursive :: bool

type_synonym 'v ConfigReaderOption = "'v ConfigReader \<Rightarrow> 'v ConfigReader"

text \<open>\<^verbatim>\<open>WithLogger\<close> sets the logger, which is not a field of the model.\<close>

definition WithLogger :: "'v ConfigReaderOption" where
  "WithLogger = (\<lambda>cr. cr)"

definition WithStrictMode :: "bool \<Rightarrow> 'v ConfigReaderOption" where
  "WithStrictMode strict = (\<lambda>cr. cr\<lparr>strictMode := strict\<rparr>)"

definition WithMaxFileSize :: "int \<Rightarrow> 'v ConfigReaderOption" where
  "WithMaxFileSize sz = (\<lambda>cr. cr\<lparr>maxFileSize := sz\<rparr>)"

definition WithDefaultPath :: "string \<Rightarrow> 'v ConfigReaderOption" where
  "WithDefaultPath path = (\<lambda>cr. cr\<lparr>defaultPath := path\<rparr>)"

definition WithRecursive :: "bool \<Rightarrow> 'v ConfigReaderOption" where
  "WithRecursive r = (\<lambda>cr. cr\<lparr>recursive := r\<rparr>)"

text \<open>
  \<^verbatim>\<open>RegisterFormats\<close>: the outer loop runs over the entries of the map in the order
  of the list; \<^verbatim>\<open>maps.Copy\<close> stores every entry in the catalog.
\<close>

definition registerExts ::
  "'v env \<Rightarrow> ConfigFormat \<Rightarrow> string list \<Rightarrow> (string \<rightharpoonup> ConfigFormat) \<Rightarrow> (string \<rightharpoonup> ConfigFormat)" where
  "registerExts env formatID exts m =
     fold (\<lambda>ext m. m(ToLower (unicode_ToLower env) ext \<mapsto> formatID)) exts m"

definition maps_Copy :: "('k \<rightharpoonup> 'a) \<Rightarrow> ('k \<times> 'a) list \<Rightarrow> ('k \<rightharpoonup> 'a)" where
  "maps_Copy dst src = fold (\<lambda>(k, v) m. m(k \<mapsto> v)) src dst"

definition RegisterFormats :: "'v env \<Rightarrow> 'v ConfigReader \<Rightarrow> 'v FormatMap \<Rightarrow> 'v ConfigReader" where
  "RegisterFormats env cr fmts =
     cr\<lparr>supportedExts :=
          fold (\<lambda>(formatID, formatData) m. registerExts env formatID (Extensions formatData) m)
            fmts (supportedExts cr),
        formats := maps_Copy (formats cr) fmts\<rparr>"

definition NewConfigReader :: "'v env \<Rightarrow> 'v ConfigReaderOption list \<Rightarrow> 'v ConfigReader" where
  "NewConfigReader env opts =
     fold (\<lambda>opt cr. opt cr) opts
       (RegisterFormats env
          \<lparr>defaultPath = ''/etc/config'', supportedExts = Map.empty, formats = Map.empty,
           strictMode = False, maxFileSize = 10 * 1024 * 1024, recursive = False\<rparr>
          (DefaultFormats env))"

definition detectFormat :: "'v env \<Rightarrow> 'v ConfigReader \<Rightarrow> string \<Rightarrow> ConfigFormat" where
  "detectFormat env cr filename =
     (let ext = ToLower (unicode_ToLower env) (Ext filename)
      in case supportedExts cr ext of
           Some format \<Rightarrow> format
         | None \<Rightarrow> FormatUnknown)"

subsection \<open>Reading one file\<close>

text \<open>
  \<open>reads\<close> is the list of the paths given to \<^verbatim>\<open>os.ReadFile\<close> so far; a call
  appends its path. \<open>readAndParseFile\<close> returns the error or the value stored in the
  target.
\<close>

definition readAndParseFile ::
  "'v ConfigReader \<Rightarrow> 'v env \<Rightarrow> string \<Rightarrow> ConfigFormat \<Rightarrow> string list
     \<Rightarrow> (string list \<times> (error + 'v)) outcome" where
  "readAndParseFile cr env fullPath format reads =
     (let reads1 = reads @ [fullPath]
      in case os_ReadFile env fullPath of
           Inl err \<Rightarrow> Return (reads1, Inl (ReadError err))
         | Inr data \<Rightarrow>
             (case formats cr format of
                None \<Rightarrow> Return (reads1, Inl (NoRegisteredFormat []))
              | Some formatItem \<Rightarrow>
                  (case Unmarshal formatItem of
                     None \<Rightarrow> Panic
                   | Some unmarshal \<Rightarrow>
                       (case unmarshal data of
                          Inl err \<Rightarrow> Return (reads1, Inl (ParseError (Name formatItem) err))
                        | Inr cfg \<Rightarrow> Return (reads1, Inr cfg)))))"

text \<open>The result is the triple \<^verbatim>\<open>(*T, string, error)\<close>, with the list of reads.\<close>

definition processFile ::
  "'v ConfigReader \<Rightarrow> 'v env \<Rightarrow> string \<Rightarrow> FileInfo \<Rightarrow> string list
     \<Rightarrow> (string list \<times> 'v option \<times> string \<times> error option) outcome" where
  "processFile cr env fullPath info reads =
     (let filename = info_Name info
      in if info_IsDir info then Return (reads, None, baseName filename, Some IsDirectory)
         else if info_Size info > maxFileSize cr
         then Return (reads, None, baseName filename,
                Some (TooLarge (info_Size info) (maxFileSize cr)))
         else
           (let format = detectFormat env cr (info_Name info)
            in if format = FormatUnknown
               then Return (reads, None, baseName filename, Some UnsupportedFormat)
               else
                 (case readAndParseFile cr env fullPath format reads of
                    Panic \<Rightarrow> Panic
                  | Return (reads1, Inl err) \<Rightarrow> Return (reads1, None, [], Some err)
                  | Return (reads1, Inr cfg) \<Rightarrow>
                      Return (reads1, Some cfg, baseName filename, None))))"

subsection \<open>Scanning a directory\<close>

record scanStats =
  processed :: nat
  skipped :: nat
  errors :: nat

text \<open>
  The state of one scan: the result map, the counters, and the reads made so far.
\<close>

record 'v scan =
  configs :: "string \<rightharpoonup> 'v"
  stats :: scanStats
  reads :: "string list"

definition incProcessed :: "'v scan \<Rightarrow> 'v scan" where
  "incProcessed s = s\<lparr>stats := (stats s)\<lparr>processed := processed (stats s) + 1\<rparr>\<rparr>"

definition incSkipped :: "'v scan \<Rightarrow> 'v scan" where
  "incSkipped s = s\<lparr>stats := (stats s)\<lparr>skipped := skipped (stats s) + 1\<rparr>\<rparr>"

definition incErrors :: "'v scan \<Rightarrow> 'v scan" where
  "incErrors s = s\<lparr>stats := (stats s)\<lparr>errors := errors (stats s) + 1\<rparr>\<rparr>"

definition processEntry ::
  "'v ConfigReader \<Rightarrow> 'v env \<Rightarrow> string \<Rightarrow> DirEntry \<Rightarrow> 'v scan
     \<Rightarrow> ('v scan \<times> error option) outcome" where
  "processEntry cr env parentDir entry s =
     (let filename = entry_Name entry;
          fullPath = filepath_Join env parentDir filename
      in case entry_Info entry of
           Inl err \<Rightarrow>
             (if strictMode cr then Return (incErrors s, Some (InfoError filename err))
              else Return (incSkipped (incErrors s), None))
         | Inr info \<Rightarrow>
             (case processFile cr env fullPath info (reads s) of
                Panic \<Rightarrow> Panic
              | Return (reads1, cfg, name, Some err) \<Rightarrow>
                  (let s1 = incErrors (s\<lparr>reads := reads1\<rparr>)
                   in if strictMode cr then Return (s1, Some (ProcessError filename err))
                      else Return (incSkipped s1, None))
              | Return (reads1, None, name, None) \<Rightarrow>
                  Return (incSkipped (s\<lparr>reads := reads1\<rparr>), None)
              | Return (reads1, Some cfg, name, None) \<Rightarrow>
                  (let s1 = s\<lparr>reads := reads1\<rparr>
                   in if configs s1 name \<noteq> None \<and> strictMode cr
                      then Return (s1, Some (DuplicateName name filename))
                      else Return (incProcessed (s1\<lparr>configs := (configs s1)(name \<mapsto> cfg)\<rparr>),
                             None))))"

text \<open>The loop of \<open>scanFlat\<close> over the listed entries.\<close>

fun scanFlatLoop ::
  "'v ConfigReader \<Rightarrow> 'v env \<Rightarrow> string \<Rightarrow> DirEntry list \<Rightarrow> 'v scan
     \<Rightarrow> ('v scan \<times> error option) outcome" where
  "scanFlatLoop cr env dirPath [] s = Return (s, None)"
| "scanFlatLoop cr env dirPath (file # files) s =
     (if entry_IsDir file then scanFlatLoop cr env dirPath files (incSkipped s)
      else
        (case processEntry cr env dirPath file s of
           Panic \<Rightarrow> Panic
         | Return (s1, Some err) \<Rightarrow>
             (if strictMode cr then Return (s1, Some err)
              else scanFlatLoop cr env dirPath files s1)
         | Return (s1, None) \<Rightarrow> scanFlatLoop cr env dirPath files s1))"

definition scanFlat ::
  "'v ConfigReader \<Rightarrow> 'v env \<Rightarrow> string \<Rightarrow> 'v scan \<Rightarrow> ('v scan \<times> error option) outcome" where
  "scanFlat cr env dirPath s =
     (case os_ReadDir env dirPath of
        (files, Some err) \<Rightarrow> Return (s, Some (ReadDirError err))
      | (files, None) \<Rightarrow> scanFlatLoop cr env dirPath files s)"

text \<open>
  \<^verbatim>\<open>filepath.WalkDir\<close> and its \<^verbatim>\<open>walkDir\<close>, for a callback that returns errors of
  the type \<open>error\<close> (which has no \<^verbatim>\<open>SkipDir\<close> and no \<^verbatim>\<open>SkipAll\<close>: every error
  the callback of \<open>scanRecursive\<close> returns is built by \<^verbatim>\<open>fmt.Errorf\<close>). \<open>walkDirs\<close>
  is the loop of \<^verbatim>\<open>walkDir\<close> over the entries of a directory.
\<close>

type_synonym 's WalkDirFunc =
  "string \<Rightarrow> DirEntry option \<Rightarrow> error option \<Rightarrow> 's \<Rightarrow> ('s \<times> error option) outcome"

fun walkDir ::
    "'s WalkDirFunc \<Rightarrow> (string \<Rightarrow> string \<Rightarrow> string) \<Rightarrow> string \<Rightarrow> fstree \<Rightarrow> 's
       \<Rightarrow> ('s \<times> error option) outcome"
  and walkDirs ::
    "'s WalkDirFunc \<Rightarrow> (string \<Rightarrow> string \<Rightarrow> string) \<Rightarrow> string \<Rightarrow> fstree list \<Rightarrow> 's
       \<Rightarrow> ('s \<times> error option) outcome" where
  "walkDir fn join path (Node d dirs rderr) s =
     (case fn path (Some d) None s of
        Panic \<Rightarrow> Panic
      | Return (s1, Some err) \<Rightarrow> Return (s1, Some err)
      | Return (s1, None) \<Rightarrow>
          (if \<not> entry_IsDir d then Return (s1, None)
           else
             (case rderr of
                None \<Rightarrow> walkDirs fn join path dirs s1
              | Some e \<Rightarrow>
                  (case fn path (Some d) (Some e) s1 of
                     Panic \<Rightarrow> Panic
                   | Return (s2, Some err) \<Rightarrow> Return (s2, Some err)
                   | Return (s2, None) \<Rightarrow> walkDirs fn join path dirs s2))))"
| "walkDirs fn join path [] s = Return (s, None)"
| "walkDirs fn join path (t # ts) s =
     (case walkDir fn join (join path (entry_Name (root_entry t))) t s of
        Panic \<Rightarrow> Panic
      | Return (s1, Some err) \<Rightarrow> Return (s1, Some err)
      | Return (s1, None) \<Rightarrow> walkDirs fn join path ts s1)"

definition WalkDir :: "'v env \<Rightarrow> string \<Rightarrow> 's WalkDirFunc \<Rightarrow> 's \<Rightarrow> ('s \<times> error option) outcome" where
  "WalkDir env root fn s =
     (case walk_root env root of
        Inl err \<Rightarrow> fn root None (Some err) s
      | Inr t \<Rightarrow> walkDir fn (filepath_Join env) root t s)"

text \<open>
  The function literal of \<open>scanRecursive\<close>. \<^verbatim>\<open>WalkDir\<close> passes a \<^verbatim>\<open>nil\<close> entry
  only together with an error; \<^verbatim>\<open>d.IsDir()\<close> on a \<^verbatim>\<open>nil\<close> entry panics.
\<close>

definition walkFn :: "'v ConfigReader \<Rightarrow> 'v env \<Rightarrow> 'v scan WalkDirFunc" where
  "walkFn cr env path d err s =
     (case err of
        Some e \<Rightarrow>
          (if strictMode cr then Return (s, Some (AccessError path e))
           else Return (incErrors s, None))
      | None \<Rightarrow>
          (case d of
             None \<Rightarrow> Panic
           | Some d \<Rightarrow>
               (if entry_IsDir d then Return (s, None)
                else processEntry cr env (filepath_Dir env path) d s)))"

definition scanRecursive ::
  "'v ConfigReader \<Rightarrow> 'v env \<Rightarrow> string \<Rightarrow> 'v scan \<Rightarrow> ('v scan \<times> error option) outcome" where
  "scanRecursive cr env dirPath s = WalkDir env dirPath (walkFn cr env) s"

text \<open>
  The state a scan starts from: \<^verbatim>\<open>configs := make(map[string]*T)\<close> and
  \<^verbatim>\<open>stats := &scanStats{}\<close>.
\<close>

definition newScan :: "'v scan" where
  "newScan =
     \<lparr>configs = Map.empty, stats = \<lparr>processed = 0, skipped = 0, errors = 0\<rparr>, reads = []\<rparr>"

text \<open>
  \<open>ReadDirMap\<close> returns the pair \<^verbatim>\<open>(map[string]*T, error)\<close>: \<open>None\<close> is \<^verbatim>\<open>nil\<close>.
\<close>

definition ReadDirMap ::
  "'v ConfigReader \<Rightarrow> 'v env \<Rightarrow> string \<Rightarrow> ((string \<rightharpoonup> 'v) option \<times> error option) outcome" where
  "ReadDirMap cr env dirPath0 =
     (let dirPath = (if dirPath0 = [] then defaultPath cr else dirPath0)
      in case os_Stat env dirPath of
           Inl err \<Rightarrow> Return (None, Some (PathInaccessible err))
         | Inr info \<Rightarrow>
             (if \<not> info_IsDir info then Return (None, Some NotADirectory)
              else
                (case (if recursive cr then scanRecursive cr env dirPath newScan
                       else scanFlat cr env dirPath newScan) of
                   Panic \<Rightarrow> Panic
                 | Return (s, Some err) \<Rightarrow> Return (None, Some err)
                 | Return (s, None) \<Rightarrow> Return (Some (configs s), None))))"

subsection \<open>Notions of the specification\<close>

text \<open>
  Two bytes are the same letter up to case when one is the other, its ASCII lower-case
  form or its ASCII upper-case form (\<^verbatim>\<open>c -= 'a' - 'A'\<close> on \<open>'a'..'z'\<close>); two
  strings are the same up to letter case when they are so byte by byte.
\<close>

definition upperByte :: "char \<Rightarrow> char" where
  "upperByte c =
     (if CHR ''a'' \<le> c \<and> c \<le> CHR ''z'' then char_of (of_char c - (32::nat)) else c)"

definition caseVariant :: "char \<Rightarrow> char \<Rightarrow> bool" where
  "caseVariant c d \<longleftrightarrow> d = c \<or> d = lowerByte c \<or> d = upperByte c"

definition sameUpToCase :: "string \<Rightarrow> string \<Rightarrow> bool" where
  "sameUpToCase s t = list_all2 caseVariant s t"

text \<open>
  What the Unicode tables do to the ASCII letters of a string that also has other bytes:
  strings that are the same up to the case of their ASCII letters have the same lower-case
  form.
\<close>

definition respectsCase :: "(string \<Rightarrow> string) \<Rightarrow> bool" where
  "respectsCase unicodeLower \<longleftrightarrow> (\<forall>s t. sameUpToCase s t \<longrightarrow> unicodeLower s = unicodeLower t)"

text \<open>The options the package offers.\<close>

definition packageOptions :: "'v ConfigReaderOption set" where
  "packageOptions =
     {WithLogger} \<union> range WithStrictMode \<union> range WithMaxFileSize \<union>
     range WithDefaultPath \<union> range WithRecursive"

subsection \<open>Traversal order\<close>

text \<open>
  What becomes of one entry given to \<open>processEntry\<close>: it is loaded under a name, it fails
  (with the error a strict scan returns for it), the loader returns neither a value nor an
  error, or the deserializer is a \<^verbatim>\<open>nil\<close> function and the call panics.
\<close>

datatype 'v verdict = Loaded string 'v | Failed error | Empty | Crashed

definition verdict :: "'v ConfigReader \<Rightarrow> 'v env \<Rightarrow> string \<Rightarrow> DirEntry \<Rightarrow> 'v verdict" where
  "verdict cr env parentDir entry =
     (case entry_Info entry of
        Inl err \<Rightarrow> Failed (InfoError (entry_Name entry) err)
      | Inr info \<Rightarrow>
          (case processFile cr env (filepath_Join env parentDir (entry_Name entry)) info [] of
             Panic \<Rightarrow> Crashed
           | Return (rds, cfg, name, Some err) \<Rightarrow> Failed (ProcessError (entry_Name entry) err)
           | Return (rds, None, name, None) \<Rightarrow> Empty
           | Return (rds, Some cfg, name, None) \<Rightarrow> Loaded name cfg))"

text \<open>
  The events of a scan, in the order of the traversal: a file entry is visited (given to
  \<open>processEntry\<close> with its parent directory), a flat scan passes a subdirectory by, a
  recursive scan is told that a path cannot be accessed.
\<close>

datatype event = Visit string DirEntry | PassBy DirEntry | Inaccessible string error

definition flatEvents :: "string \<Rightarrow> DirEntry list \<Rightarrow> event list" where
  "flatEvents dirPath files =
     map (\<lambda>file. if entry_IsDir file then PassBy file else Visit dirPath file) files"

fun walkEvents :: "'v env \<Rightarrow> string \<Rightarrow> fstree \<Rightarrow> event list"
  and walkEventsList :: "'v env \<Rightarrow> string \<Rightarrow> fstree list \<Rightarrow> event list" where
  "walkEvents env path (Node d dirs rderr) =
     (if entry_IsDir d
      then (case rderr of None \<Rightarrow> [] | Some e \<Rightarrow> [Inaccessible path e]) @
           walkEventsList env path dirs
      else [Visit (filepath_Dir env path) d])"
| "walkEventsList env path [] = []"
| "walkEventsList env path (t # ts) =
     walkEvents env (filepath_Join env path (entry_Name (root_entry t))) t @
     walkEventsList env path ts"

definition traversal :: "'v ConfigReader \<Rightarrow> 'v env \<Rightarrow> string \<Rightarrow> event list" where
  "traversal cr env dirPath =
     (if recursive cr
      then (case walk_root env dirPath of
              Inl err \<Rightarrow> [Inaccessible dirPath err]
            | Inr t \<Rightarrow> walkEvents env dirPath t)
      else flatEvents dirPath (fst (os_ReadDir env dirPath)))"

text \<open>The entries of a list of events that are loaded, with their names, in order.\<close>

definition loaded :: "'v ConfigReader \<Rightarrow> 'v env \<Rightarrow> event list \<Rightarrow> (string \<times> 'v) list" where
  "loaded cr env evs =
     List.map_filter
       (\<lambda>ev. case ev of
                Visit dir entry \<Rightarrow>
                  (case verdict cr env dir entry of Loaded name cfg \<Rightarrow> Some (name, cfg) | _ \<Rightarrow> None)
              | _ \<Rightarrow> None)
       evs"

text \<open>An event that is an error: a visited entry that fails, or an inaccessible path.\<close>

fun isError :: "'v ConfigReader \<Rightarrow> 'v env \<Rightarrow> event \<Rightarrow> bool" where
  "isError cr env (Visit dir entry) =
     (case verdict cr env dir entry of Failed err \<Rightarrow> True | _ \<Rightarrow> False)"
| "isError cr env (PassBy entry) = False"
| "isError cr env (Inaccessible path err) = True"

fun crashes :: "'v ConfigReader \<Rightarrow> 'v env \<Rightarrow> event \<Rightarrow> bool" where
  "crashes cr env (Visit dir entry) = (verdict cr env dir entry = Crashed)"
| "crashes cr env (PassBy entry) = False"
| "crashes cr env (Inaccessible path err) = False"

text \<open>
  A list of events in which a strict scan finds nothing to stop for: no error, no panic,
  and no name loaded twice or already in the result map.
\<close>

definition quiet :: "'v ConfigReader \<Rightarrow> 'v env \<Rightarrow> string set \<Rightarrow> event list \<Rightarrow> bool" where
  "quiet cr env seen evs \<longleftrightarrow>
     list_all (\<lambda>ev. \<not> isError cr env ev \<and> \<not> crashes cr env ev) evs \<and>
     distinct (map fst (loaded cr env evs)) \<and>
     fst ` set (loaded cr env evs) \<inter> seen = {}"

text \<open>
  The scan as a loop over its events; \<open>scanFlat\<close> and \<open>scanRecursive\<close> are shown to be
  this loop over their traversals.
\<close>

fun visit :: "'v ConfigReader \<Rightarrow> 'v env \<Rightarrow> event \<Rightarrow> 'v scan \<Rightarrow> ('v scan \<times> error option) outcome" where
  "visit cr env (Visit dir entry) s = processEntry cr env dir entry s"
| "visit cr env (PassBy entry) s = Return (incSkipped s, None)"
| "visit cr env (Inaccessible path err) s = walkFn cr env path None (Some err) s"

fun visitAll ::
  "'v ConfigReader \<Rightarrow> 'v env \<Rightarrow> event list \<Rightarrow> 'v scan \<Rightarrow> ('v scan \<times> error option) outcome" where
  "visitAll cr env [] s = Return (s, None)"
| "visitAll cr env (ev # evs) s =
     (case visit cr env ev s of
        Panic \<Rightarrow> Panic
      | Return (s1, Some err) \<Rightarrow> Return (s1, Some err)
      | Return (s1, None) \<Rightarrow> visitAll cr env evs s1)"

text \<open>
  The scan of \<open>dirPath0\<close> starts: the path, or the default path in place of the empty
  one, is a directory that \<^verbatim>\<open>os.Stat\<close> finds, and a flat scan can list it.
\<close>

definition scanStarts :: "'v ConfigReader \<Rightarrow> 'v env \<Rightarrow> string \<Rightarrow> string \<Rightarrow> bool" where
  "scanStarts cr env dirPath0 dirPath \<longleftrightarrow>
     dirPath = (if dirPath0 = [] then defaultPath cr else dirPath0) \<and>
     (case os_Stat env dirPath of Inl err \<Rightarrow> False | Inr info \<Rightarrow> info_IsDir info) \<and>
     (recursive cr \<or> snd (os_ReadDir env dirPath) = None)"

subsection \<open>An example environment\<close>

text \<open>
  A deserializer that rejects every text with a \<open>!\<close> and returns any other text as the
  value, and a small file system: \<open>conf\<close> holds a well-formed and a malformed file,
  \<open>dup\<close> two files with one base name, \<open>locked\<close> cannot be listed, \<open>empty\<close> has no
  entry, the listing of \<open>tree/sub\<close> breaks off with an error after its first entry, and
  \<open>other\<close> and \<open>nest/sub\<close> each hold a malformed file of the name that \<open>conf\<close> has.
  The Unicode tables of the example are the identity: the examples reach them only with
  a string whose letters are all lower-case.
\<close>

definition toy_Unmarshal :: "string \<Rightarrow> error + string" where
  "toy_Unmarshal data =
     (if CHR ''!'' \<in> set data then Inl (External ''malformed'') else Inr data)"

definition regularFile :: "string \<Rightarrow> int \<Rightarrow> DirEntry" where
  "regularFile name sz =
     \<lparr>entry_Name = name, entry_IsDir = False,
      entry_Info = Inr \<lparr>info_Name = name, info_IsDir = False, info_Size = sz\<rparr>\<rparr>"

definition directory :: "string \<Rightarrow> DirEntry" where
  "directory name =
     \<lparr>entry_Name = name, entry_IsDir = True,
      entry_Info = Inr \<lparr>info_Name = name, info_IsDir = True, info_Size = 4096\<rparr>\<rparr>"

definition env0_files :: "(string \<times> string) list" where
  "env0_files =
     [(''conf/app.yaml'', ''port: 80''), (''conf/bad.yaml'', ''!''),
      (''dup/svc.yaml'', ''v: 1''), (''dup/svc.json'', ''v: 2''),
      (''tree/a.yaml'', ''a: 1''), (''tree/sub/b.yaml'', ''b: 2''),
      (''hidden/.yaml'', ''h: 0''), (''other/bad.yaml'', ''!''),
      (''nest/sub/bad.yaml'', ''!'')]"

definition env0_dirs :: "(string \<times> DirEntry list \<times> error option) list" where
  "env0_dirs =
     [(''conf'', [regularFile ''app.yaml'' 8, regularFile ''bad.yaml'' 1], None),
      (''dup'', [regularFile ''svc.yaml'' 4, regularFile ''svc.json'' 4], None),
      (''locked'', [], Some (External ''permission denied'')),
      (''tree'', [regularFile ''a.yaml'' 4, directory ''sub''], None),
      (''empty'', [], None),
      (''other'', [regularFile ''bad.yaml'' 1], None),
      (''nest'', [directory ''sub''], None)]"

definition env0_trees :: "(string \<times> fstree) list" where
  "env0_trees =
     [(''tree'',
        Node (directory ''tree'')
          [Node (regularFile ''a.yaml'' 4) [] None,
           Node (directory ''sub'') [Node (regularFile ''b.yaml'' 4) [] None]
             (Some (External ''input/output error''))]
          None),
      (''conf'',
        Node (directory ''conf'')
          [Node (regularFile ''app.yaml'' 8) [] None, Node (regularFile ''bad.yaml'' 1) [] None]
          None),
      (''locked'', Node (directory ''locked'') [] (Some (External ''permission denied''))),
      (''nest'',
        Node (directory ''nest'')
          [Node (directory ''sub'') [Node (regularFile ''bad.yaml'' 1) [] None] None]
          None)]"

definition env0 :: "string env" where
  "env0 =
     \<lparr>os_Stat = (\<lambda>p. case map_of env0_dirs p of
                 Some d \<Rightarrow> Inr \<lparr>info_Name = p, info_IsDir = True, info_Size = 4096\<rparr>
               | None \<Rightarrow> Inl (External ''no such file or directory'')),
      os_ReadFile = (\<lambda>p. case map_of env0_files p of
                 Some data \<Rightarrow> Inr data
               | None \<Rightarrow> Inl (External ''no such file or directory'')),
      os_ReadDir = (\<lambda>p. case map_of env0_dirs p of
                 Some r \<Rightarrow> r
               | None \<Rightarrow> ([], Some (External ''no such file or directory''))),
      walk_root = (\<lambda>p. case map_of env0_trees p of
                 Some t \<Rightarrow> Inr t
               | None \<Rightarrow> Inl (External ''no such file or directory'')),
      filepath_Join = (\<lambda>d f. d @ ''/'' @ f),
      filepath_Dir = (\<lambda>p. take (nat (LastIndex p (CHR ''/''))) p),
      unicode_ToLower = (\<lambda>s. s),
      yaml_Unmarshal = toy_Unmarshal,
      json_Unmarshal = toy_Unmarshal\<rparr>"

text \<open>Format maps a caller may register: a format with a mixed-case extension, and a map
  that lists an extension under the identifier \<open>FormatUnknown\<close>.\<close>

definition tomlFormat :: "string FormatMap" where
  "tomlFormat =
     [(3, \<lparr>Name = ''toml'', Extensions = [''.ToML''], Unmarshal = Some toy_Unmarshal\<rparr>)]"

definition txtAsUnknown :: "string FormatMap" where
  "txtAsUnknown =
     [(FormatUnknown, \<lparr>Name = ''text'', Extensions = [''.txt''], Unmarshal = None\<rparr>)]"

section \<open>Properties\<close>

subsection \<open>The name deriver\<close>

lemma lastIndexFrom_none:
  "n \<le> length s \<Longrightarrow> c \<notin> set (take n s) \<Longrightarrow> lastIndexFrom s c n = - 1"
  by (induction n) (auto simp: take_Suc_conv_app_nth)

lemma lastIndexFrom_append:
  "n \<le> length s \<Longrightarrow> lastIndexFrom (s @ t) c n = lastIndexFrom s c n"
  by (induction n) (auto simp: nth_append)

lemma lastIndexFrom_snoc:
  "lastIndexFrom (s @ [x]) c (Suc (length s)) =
     (if x = c then int (length s) else lastIndexFrom s c (length s))"
  by (simp add: lastIndexFrom_append)

lemma lastIndexFrom_found:
  "c \<notin> set post \<Longrightarrow>
   lastIndexFrom (pre @ c # post) c (length (pre @ c # post)) = int (length pre)"
proof (induction post rule: rev_induct)
  case Nil
  show ?case using lastIndexFrom_snoc [of pre c c] by simp
next
  case (snoc x xs)
  define s where "s = pre @ c # xs"
  have "lastIndexFrom (s @ [x]) c (Suc (length s)) = lastIndexFrom s c (length s)"
    using snoc.prems by (simp only: lastIndexFrom_snoc) auto
  then show ?case using snoc by (simp add: s_def)
qed

lemma LastIndex_none: "c \<notin> set s \<Longrightarrow> LastIndex s c = - 1"
  by (simp add: LastIndex_def lastIndexFrom_none)

lemma LastIndex_found: "c \<notin> set post \<Longrightarrow> LastIndex (pre @ c # post) c = int (length pre)"
  using lastIndexFrom_found [of c post pre] by (simp add: LastIndex_def)

text \<open>
  C5. A filename with a \<open>.\<close> at an index other than 0 is \<open>pre @ ''.'' @ post\<close> with
  \<open>pre\<close> not empty and no \<open>.\<close> in \<open>post\<close> (the \<open>.\<close> shown is the last one):
  \<open>baseName\<close> returns \<open>pre\<close>, everything before the last \<open>.\<close>. A filename with no
  \<open>.\<close>, and a filename whose only \<open>.\<close> is its first byte, is returned unchanged.
\<close>

theorem baseName_strips_final_extension:
  "(pre \<noteq> [] \<and> CHR ''.'' \<notin> set post \<longrightarrow> baseName (pre @ CHR ''.'' # post) = pre) \<and>
   (CHR ''.'' \<notin> set filename \<longrightarrow> baseName filename = filename) \<and>
   (CHR ''.'' \<notin> set post \<longrightarrow> baseName (CHR ''.'' # post) = CHR ''.'' # post)"
proof (intro conjI impI)
  assume "pre \<noteq> [] \<and> CHR ''.'' \<notin> set post"
  then show "baseName (pre @ CHR ''.'' # post) = pre"
    by (simp add: baseName_def LastIndex_found)
next
  assume "CHR ''.'' \<notin> set filename"
  then show "baseName filename = filename"
    by (simp add: baseName_def LastIndex_none)
next
  assume "CHR ''.'' \<notin> set post"
  then show "baseName (CHR ''.'' # post) = CHR ''.'' # post"
    using LastIndex_found [of "CHR ''.''" post "[]"] by (simp add: baseName_def)
qed

theorem baseName_strips_final_extension_witness:
  "baseName ''app.yaml'' = ''app'' \<and> baseName ''app.tar.gz'' = ''app.tar'' \<and>
   baseName ''README'' = ''README'' \<and> baseName ''.env'' = ''.env''"
  using baseName_strips_final_extension [of "''app''" "''yaml''" "''README''"]
    baseName_strips_final_extension [of "''app.tar''" "''gz''" "''README''"]
    baseName_strips_final_extension [of "''x''" "''env''" "''README''"]
  by simp

subsection \<open>Extensions and lower case\<close>

lemma lowerByte_upper:
  "lowerByte CHR ''A'' = CHR ''a''" "lowerByte CHR ''B'' = CHR ''b''"
  "lowerByte CHR ''C'' = CHR ''c''" "lowerByte CHR ''D'' = CHR ''d''"
  "lowerByte CHR ''E'' = CHR ''e''" "lowerByte CHR ''F'' = CHR ''f''"
  "lowerByte CHR ''G'' = CHR ''g''" "lowerByte CHR ''H'' = CHR ''h''"
  "lowerByte CHR ''I'' = CHR ''i''" "lowerByte CHR ''J'' = CHR ''j''"
  "lowerByte CHR ''K'' = CHR ''k''" "lowerByte CHR ''L'' = CHR ''l''"
  "lowerByte CHR ''M'' = CHR ''m''" "lowerByte CHR ''N'' = CHR ''n''"
  "lowerByte CHR ''O'' = CHR ''o''" "lowerByte CHR ''P'' = CHR ''p''"
  "lowerByte CHR ''Q'' = CHR ''q''" "lowerByte CHR ''R'' = CHR ''r''"
  "lowerByte CHR ''S'' = CHR ''s''" "lowerByte CHR ''T'' = CHR ''t''"
  "lowerByte CHR ''U'' = CHR ''u''" "lowerByte CHR ''V'' = CHR ''v''"
  "lowerByte CHR ''W'' = CHR ''w''" "lowerByte CHR ''X'' = CHR ''x''"
  "lowerByte CHR ''Y'' = CHR ''y''" "lowerByte CHR ''Z'' = CHR ''z''"
  by code_simp+

lemma lowerByte_other: "\<not> (CHR ''A'' \<le> c \<and> c \<le> CHR ''Z'') \<Longrightarrow> lowerByte c = c"
  by (auto simp: lowerByte_def)

lemma extFrom_found:
  "n \<le> length s \<Longrightarrow> s ! i = CHR ''.'' \<Longrightarrow> i < n \<Longrightarrow>
   \<forall>j. i < j \<and> j < n \<longrightarrow> s ! j \<noteq> CHR ''/'' \<and> s ! j \<noteq> CHR ''.'' \<Longrightarrow>
   extFrom s n = drop i s"
proof (induction n)
  case 0
  then show ?case by simp
next
  case (Suc n)
  show ?case
  proof (cases "i = n")
    case True
    then show ?thesis using Suc.prems by simp
  next
    case False
    then have "i < n" using Suc.prems by simp
    moreover have "s ! n \<noteq> CHR ''/'' \<and> s ! n \<noteq> CHR ''.''"
      using Suc.prems \<open>i < n\<close> by simp
    ultimately show ?thesis using Suc by simp
  qed
qed

lemma Ext_found:
  assumes "CHR ''.'' \<notin> set post" and "CHR ''/'' \<notin> set post"
  shows "Ext (pre @ CHR ''.'' # post) = CHR ''.'' # post"
proof -
  let ?s = "pre @ CHR ''.'' # post"
  have "extFrom ?s (length ?s) = drop (length pre) ?s"
  proof (rule extFrom_found)
    show "\<forall>j. length pre < j \<and> j < length ?s \<longrightarrow> ?s ! j \<noteq> CHR ''/'' \<and> ?s ! j \<noteq> CHR ''.''"
    proof (intro allI impI)
      fix j assume j: "length pre < j \<and> j < length ?s"
      then have "?s ! j = post ! (j - Suc (length pre))"
        by (auto simp: nth_append nth_Cons')
      moreover have "j - Suc (length pre) < length post" using j by auto
      ultimately have "?s ! j \<in> set post" by (metis nth_mem)
      then show "?s ! j \<noteq> CHR ''/'' \<and> ?s ! j \<noteq> CHR ''.''" using assms by auto
    qed
  qed simp_all
  then show ?thesis by (simp add: Ext_def)
qed

lemma extFrom_none:
  "n \<le> length s \<Longrightarrow> CHR ''.'' \<notin> set (take n s) \<Longrightarrow> extFrom s n = []"
  by (induction n) (auto simp: take_Suc_conv_app_nth)

lemma Ext_none: "CHR ''.'' \<notin> set s \<Longrightarrow> Ext s = []"
  by (simp add: Ext_def extFrom_none)

lemmas string_eval = ToLower_def isASCII_def lowerByte_upper lowerByte_other Ext_def
  baseName_def LastIndex_def

lemmas reader_eval = NewConfigReader_def RegisterFormats_def DefaultFormats_def
  registerExts_def maps_Copy_def FormatUnknown_def FormatYAML_def FormatJSON_def

lemmas env0_eval = env0_def env0_files_def env0_dirs_def env0_trees_def toy_Unmarshal_def
  regularFile_def directory_def

lemmas file_eval = processFile_def readAndParseFile_def detectFormat_def Let_def

subsection \<open>Single files\<close>

lemma processFile_unsupported_iff:
  assumes "\<not> info_IsDir info" and "info_Size info \<le> maxFileSize cr"
  shows "(\<exists>rds1 cfg name. processFile cr env fullPath info rds =
            Return (rds1, cfg, name, Some UnsupportedFormat))
     \<longleftrightarrow> detectFormat env cr (info_Name info) = FormatUnknown"
  using assms
  by (auto simp: processFile_def readAndParseFile_def Let_def split: sum.splits option.splits)

text \<open>
  C1 (as stated, it fails). \<^verbatim>\<open>filepath.Ext\<close> returns the suffix from the last \<open>.\<close>
  also when that \<open>.\<close> is at index 0: with the default formats \<open>.yaml\<close> is detected as
  YAML, and \<open>processFile\<close> reads and parses the file.
\<close>

theorem dot_yaml_detected_as_yaml:
  "detectFormat env0 (NewConfigReader env0 []) ''.yaml'' = FormatYAML \<and>
   FormatYAML \<noteq> FormatUnknown \<and>
   processFile (NewConfigReader env0 []) env0 ''hidden/.yaml''
     \<lparr>info_Name = ''.yaml'', info_IsDir = False, info_Size = 4\<rparr> [] =
   Return ([''hidden/.yaml''], Some ''h: 0'', ''.yaml'', None)"
  by (simp add: file_eval reader_eval string_eval env0_eval)

text \<open>
  C1 (amended). For a filename whose only \<open>.\<close> is at index 0, the extension that is
  looked up is the whole filename in lower case: detection yields its owner, and the
  unknown format when it has none; for a regular file within the size limit,
  \<open>processFile\<close> fails with \<open>UnsupportedFormat\<close> exactly when the lower-cased filename
  has no owner or is owned by \<open>FormatUnknown\<close>.
\<close>

theorem detectFormat_leading_dot:
  assumes "CHR ''.'' \<notin> set rest" and "CHR ''/'' \<notin> set rest"
  shows "detectFormat env cr (CHR ''.'' # rest) =
           (case supportedExts cr (ToLower (unicode_ToLower env) (CHR ''.'' # rest)) of
              Some format \<Rightarrow> format | None \<Rightarrow> FormatUnknown) \<and>
         (\<not> info_IsDir info \<and> info_Size info \<le> maxFileSize cr \<and>
          info_Name info = CHR ''.'' # rest \<longrightarrow>
            ((\<exists>rds1 cfg name. processFile cr env fullPath info rds =
                 Return (rds1, cfg, name, Some UnsupportedFormat)) \<longleftrightarrow>
             supportedExts cr (ToLower (unicode_ToLower env) (CHR ''.'' # rest))
               \<in> {None, Some FormatUnknown}))"
proof -
  have d: "detectFormat env cr (CHR ''.'' # rest) =
           (case supportedExts cr (ToLower (unicode_ToLower env) (CHR ''.'' # rest)) of
              Some format \<Rightarrow> format | None \<Rightarrow> FormatUnknown)"
    using Ext_found [of rest "[]"] assms by (simp add: detectFormat_def)
  have "detectFormat env cr (CHR ''.'' # rest) = FormatUnknown \<longleftrightarrow>
        supportedExts cr (ToLower (unicode_ToLower env) (CHR ''.'' # rest))
               \<in> {None, Some FormatUnknown}"
    unfolding d by (auto split: option.splits)
  then show ?thesis using d processFile_unsupported_iff [of info cr env fullPath rds] by auto
qed

theorem detectFormat_leading_dot_witness:
  "CHR ''.'' \<notin> set ''env'' \<and> CHR ''/'' \<notin> set ''env'' \<and>
   detectFormat env0 (NewConfigReader env0 []) ''.env'' = FormatUnknown \<and>
   detectFormat env0 (NewConfigReader env0 []) ''.yml'' = FormatYAML \<and>
   (\<exists>rds1 cfg name. processFile (NewConfigReader env0 []) env0 ''hidden/.env''
       \<lparr>info_Name = ''.env'', info_IsDir = False, info_Size = 4\<rparr> [] =
     Return (rds1, cfg, name, Some UnsupportedFormat))"
  using detectFormat_leading_dot [of "''env''" env0 "NewConfigReader env0 []"
      "\<lparr>info_Name = ''.env'', info_IsDir = False, info_Size = 4\<rparr>" "''hidden/.env''" "[]"]
    detectFormat_leading_dot [of "''yml''" env0 "NewConfigReader env0 []"]
  by (simp add: reader_eval string_eval env0_eval)

text \<open>
  C6. For a file (not a directory) whose reported size exceeds \<open>maxFileSize\<close>,
  \<open>processFile\<close> returns \<open>TooLarge\<close> and the list of reads is unchanged: no call of
  \<^verbatim>\<open>os.ReadFile\<close> is made, whatever the environment holds at the path. A file whose
  size does not exceed the maximum never gets a \<open>TooLarge\<close> error.
\<close>

theorem size_ceiling:
  assumes "\<not> info_IsDir info"
  shows "(info_Size info > maxFileSize cr \<longrightarrow>
            processFile cr env fullPath info rds =
              Return (rds, None, baseName (info_Name info),
                Some (TooLarge (info_Size info) (maxFileSize cr)))) \<and>
         (info_Size info \<le> maxFileSize cr \<longrightarrow>
            (\<forall>rds1 cfg name a b. processFile cr env fullPath info rds \<noteq>
               Return (rds1, cfg, name, Some (TooLarge a b))))"
  using assms
  by (auto simp: processFile_def readAndParseFile_def Let_def split: sum.splits option.splits)

theorem size_ceiling_witness:
  "\<not> info_IsDir \<lparr>info_Name = ''app.yaml'', info_IsDir = False, info_Size = 10485761\<rparr> \<and>
   maxFileSize (NewConfigReader env0 []) = 10485760 \<and>
   processFile (NewConfigReader env0 []) env0 ''conf/app.yaml''
     \<lparr>info_Name = ''app.yaml'', info_IsDir = False, info_Size = 10485761\<rparr> [] =
     Return ([], None, ''app'', Some (TooLarge 10485761 10485760)) \<and>
   processFile (NewConfigReader env0 []) env0 ''conf/app.yaml''
     \<lparr>info_Name = ''app.yaml'', info_IsDir = False, info_Size = 10485760\<rparr> [] \<noteq>
     Return ([], None, ''app'', Some (TooLarge 10485760 10485760))"
  using size_ceiling [of "\<lparr>info_Name = ''app.yaml'', info_IsDir = False, info_Size = 10485761\<rparr>"
      "NewConfigReader env0 []" env0 "''conf/app.yaml''" "[]"]
    size_ceiling [of "\<lparr>info_Name = ''app.yaml'', info_IsDir = False, info_Size = 10485760\<rparr>"
      "NewConfigReader env0 []" env0 "''conf/app.yaml''" "[]"]
  by (simp add: reader_eval string_eval)

text \<open>
  C9. Whenever \<open>processFile\<close> returns, the name it returns is \<open>baseName\<close> of the
  filename on success and with the errors \<open>IsDirectory\<close>, \<open>TooLarge\<close> and
  \<open>UnsupportedFormat\<close>, and the empty string with a \<open>ParseError\<close>.
\<close>

theorem processFile_name:
  assumes "processFile cr env fullPath info rds = Return (rds1, cfg, name, err)"
  shows "(err = None \<or> err = Some IsDirectory \<or> err = Some UnsupportedFormat \<or>
          (\<exists>a b. err = Some (TooLarge a b)) \<longrightarrow> name = baseName (info_Name info)) \<and>
         ((\<exists>fmt e. err = Some (ParseError fmt e)) \<longrightarrow> name = [])"
  using assms
  by (auto simp: processFile_def readAndParseFile_def Let_def
      split: sum.splits option.splits if_splits)

theorem processFile_name_witness:
  "processFile (NewConfigReader env0 []) env0 ''conf/app.yaml''
     \<lparr>info_Name = ''app.yaml'', info_IsDir = False, info_Size = 8\<rparr> [] =
     Return ([''conf/app.yaml''], Some ''port: 80'', ''app'', None) \<and>
   processFile (NewConfigReader env0 []) env0 ''conf/app.yaml''
     \<lparr>info_Name = ''app.yaml'', info_IsDir = True, info_Size = 8\<rparr> [] =
     Return ([], None, ''app'', Some IsDirectory) \<and>
   processFile (NewConfigReader env0 []) env0 ''conf/app.yaml''
     \<lparr>info_Name = ''app.yaml'', info_IsDir = False, info_Size = 10485761\<rparr> [] =
     Return ([], None, ''app'', Some (TooLarge 10485761 10485760)) \<and>
   processFile (NewConfigReader env0 []) env0 ''conf/app.txt''
     \<lparr>info_Name = ''app.txt'', info_IsDir = False, info_Size = 8\<rparr> [] =
     Return ([], None, ''app'', Some UnsupportedFormat) \<and>
   processFile (NewConfigReader env0 []) env0 ''conf/bad.yaml''
     \<lparr>info_Name = ''bad.yaml'', info_IsDir = False, info_Size = 1\<rparr> [] =
     Return ([''conf/bad.yaml''], None, [], Some (ParseError ''yaml'' (External ''malformed'')))"
proof -
  have 1: "processFile (NewConfigReader env0 []) env0 ''conf/app.yaml''
     \<lparr>info_Name = ''app.yaml'', info_IsDir = False, info_Size = 8\<rparr> [] =
     Return ([''conf/app.yaml''], Some ''port: 80'', ''app'', None)"
    by (simp add: file_eval reader_eval string_eval env0_eval)
  have 2: "processFile (NewConfigReader env0 []) env0 ''conf/bad.yaml''
     \<lparr>info_Name = ''bad.yaml'', info_IsDir = False, info_Size = 1\<rparr> [] =
     Return ([''conf/bad.yaml''], None, [], Some (ParseError ''yaml'' (External ''malformed'')))"
    by (simp add: file_eval reader_eval string_eval env0_eval)
  have 3: "processFile (NewConfigReader env0 []) env0 ''conf/app.yaml''
     \<lparr>info_Name = ''app.yaml'', info_IsDir = True, info_Size = 8\<rparr> [] =
     Return ([], None, ''app'', Some IsDirectory)"
    by (simp add: file_eval reader_eval string_eval env0_eval)
  have 4: "processFile (NewConfigReader env0 []) env0 ''conf/app.yaml''
     \<lparr>info_Name = ''app.yaml'', info_IsDir = False, info_Size = 10485761\<rparr> [] =
     Return ([], None, ''app'', Some (TooLarge 10485761 10485760))"
    by (simp add: file_eval reader_eval string_eval env0_eval)
  have 5: "processFile (NewConfigReader env0 []) env0 ''conf/app.txt''
     \<lparr>info_Name = ''app.txt'', info_IsDir = False, info_Size = 8\<rparr> [] =
     Return ([], None, ''app'', Some UnsupportedFormat)"
    by (simp add: file_eval reader_eval string_eval env0_eval)
  show ?thesis
    using processFile_name [OF 1] processFile_name [OF 2] 1 2 3 4 5 by simp
qed

subsection \<open>Case-insensitive detection and registration\<close>

lemma of_char_lowerByte:
  "(of_char (lowerByte c) :: nat) =
     (if 65 \<le> (of_char c :: nat) \<and> (of_char c :: nat) \<le> 90 then of_char c + 32 else of_char c)"
  by (simp add: lowerByte_def less_eq_char_def)

lemma of_char_upperByte:
  "(of_char (upperByte c) :: nat) =
     (if 97 \<le> (of_char c :: nat) \<and> (of_char c :: nat) \<le> 122 then of_char c - 32 else of_char c)"
  by (auto simp: upperByte_def less_eq_char_def)

lemma char_eq_iff_of_char: "c = d \<longleftrightarrow> (of_char c :: nat) = of_char d"
  by (metis char_of_char)

lemma lowerByte_idem: "lowerByte (lowerByte c) = lowerByte c"
  by (simp add: char_eq_iff_of_char of_char_lowerByte)

lemma lowerByte_upperByte: "lowerByte (upperByte c) = lowerByte c"
  by (auto simp: char_eq_iff_of_char of_char_lowerByte of_char_upperByte)

lemma caseVariant_lowerByte: "caseVariant c d \<Longrightarrow> lowerByte c = lowerByte d"
  by (auto simp: caseVariant_def lowerByte_idem lowerByte_upperByte)

lemma special_lowerByte:
  "(lowerByte c = CHR ''.'' \<longleftrightarrow> c = CHR ''.'')" "(lowerByte c = CHR ''/'' \<longleftrightarrow> c = CHR ''/'')"
  "(lowerByte c < CHR 0x80 \<longleftrightarrow> c < CHR 0x80)"
  by (auto simp: char_eq_iff_of_char less_char_def of_char_lowerByte split: if_splits)

lemma special_upperByte:
  "(upperByte c = CHR ''.'' \<longleftrightarrow> c = CHR ''.'')" "(upperByte c = CHR ''/'' \<longleftrightarrow> c = CHR ''/'')"
  "(upperByte c < CHR 0x80 \<longleftrightarrow> c < CHR 0x80)"
  by (auto simp: char_eq_iff_of_char less_char_def of_char_upperByte split: if_splits)

lemma caseVariant_special:
  assumes "caseVariant c d"
  shows "(c = CHR ''.'' \<longleftrightarrow> d = CHR ''.'')" and "(c = CHR ''/'' \<longleftrightarrow> d = CHR ''/'')"
    and "(c < CHR 0x80 \<longleftrightarrow> d < CHR 0x80)"
  using assms unfolding caseVariant_def
  by (auto simp: special_lowerByte special_upperByte)

lemma sameUpToCase_extFrom:
  "sameUpToCase s t \<Longrightarrow> n \<le> length s \<Longrightarrow> sameUpToCase (extFrom s n) (extFrom t n)"
proof (induction n)
  case 0
  then show ?case by (simp add: sameUpToCase_def)
next
  case (Suc n)
  then have cv: "caseVariant (s ! n) (t ! n)"
    by (simp add: sameUpToCase_def list_all2_conv_all_nth)
  have "sameUpToCase (drop n s) (drop n t)"
    using Suc.prems by (simp add: sameUpToCase_def list_all2_dropI)
  then show ?case
    using Suc caseVariant_special [OF cv] by (auto simp: sameUpToCase_def)
qed

lemma sameUpToCase_Ext: "sameUpToCase s t \<Longrightarrow> sameUpToCase (Ext s) (Ext t)"
  using sameUpToCase_extFrom [of s t "length s"]
  by (simp add: Ext_def sameUpToCase_def list_all2_lengthD)

lemma sameUpToCase_isASCII: "sameUpToCase s t \<Longrightarrow> isASCII s = isASCII t"
  unfolding sameUpToCase_def isASCII_def
  by (induction s t rule: list_all2_induct) (auto simp: caseVariant_special)

lemma sameUpToCase_map_lowerByte: "sameUpToCase s t \<Longrightarrow> map lowerByte s = map lowerByte t"
  unfolding sameUpToCase_def
  by (induction s t rule: list_all2_induct) (auto simp: caseVariant_lowerByte)

lemma sameUpToCase_ToLower:
  "sameUpToCase s t \<Longrightarrow> isASCII s \<or> respectsCase u \<Longrightarrow> ToLower u s = ToLower u t"
  using sameUpToCase_isASCII [of s t] sameUpToCase_map_lowerByte [of s t]
  by (auto simp: ToLower_def respectsCase_def)

lemma registerExts_lookup:
  "registerExts env i exts m k =
     (if k \<in> ToLower (unicode_ToLower env) ` set exts then Some i else m k)"
  unfolding registerExts_def
  by (induction exts arbitrary: m) auto

lemma register_fold_lookup:
  assumes "\<forall>(i, d) \<in> set fmts. k \<in> ToLower (unicode_ToLower env) ` set (Extensions d) \<longrightarrow> i = fid"
  shows "fold (\<lambda>(formatID, formatData) m. registerExts env formatID (Extensions formatData) m) fmts m k =
     (if \<exists>(i, d) \<in> set fmts. k \<in> ToLower (unicode_ToLower env) ` set (Extensions d)
      then Some fid else m k)"
  using assms
proof (induction fmts arbitrary: m)
  case Nil
  then show ?case by simp
next
  case (Cons a fmts)
  obtain i d where a: "a = (i, d)" by (cases a)
  show ?case using Cons.prems Cons.IH [of "registerExts env i (Extensions d) m"]
    by (auto simp: a registerExts_lookup)
qed


text \<open>
  C7 (as stated, it fails). The long s (U+017F, in UTF-8 the bytes \<open>0xC5 0xBF\<close>) is a
  lower-case letter whose upper-case form is \<open>S\<close>: \<^verbatim>\<open>strings.ToUpper\<close> turns
  \<^verbatim>\<open>x.j\<close>+long s+\<^verbatim>\<open>on\<close> into \<^verbatim>\<open>X.JSON\<close>, and \<^verbatim>\<open>strings.ToLower\<close>
  leaves it as it is (every letter of it is lower-case, which is all the example
  environment has to know of the Unicode tables). The two filenames differ in letter
  case only, and the default reader detects one as unknown and the other as JSON.
\<close>

theorem long_s_extension_is_not_json:
  "detectFormat env0 (NewConfigReader env0 []) (''x.j'' @ [CHR 0xC5, CHR 0xBF] @ ''on'') =
     FormatUnknown \<and>
   detectFormat env0 (NewConfigReader env0 []) ''X.JSON'' = FormatJSON \<and>
   FormatJSON \<noteq> FormatUnknown"
  by (simp add: detectFormat_def Let_def reader_eval string_eval env0_eval)

text \<open>
  C7 (amended). Detection compares lower-case forms: two filenames whose extensions have
  the same lower-case form are detected as the same format, by every reader. Two
  filenames that are the same up to the case of their ASCII letters are such a pair; and
  after a registration that lists an extension \<open>e\<close> in any mix of cases under one format
  only, every filename whose extension is \<open>e\<close> up to the case of its ASCII letters is
  detected as that format. Extensions with bytes outside ASCII go through the Unicode
  tables, of which only \<open>respectsCase\<close> is used.
\<close>

theorem detectFormat_case_insensitive:
  "(ToLower (unicode_ToLower env) (Ext p) = ToLower (unicode_ToLower env) (Ext q) \<longrightarrow>
      detectFormat env cr p = detectFormat env cr q) \<and>
   (sameUpToCase f g \<and> (isASCII (Ext f) \<or> respectsCase (unicode_ToLower env)) \<longrightarrow>
      detectFormat env cr f = detectFormat env cr g) \<and>
   ((fid, fd) \<in> set fmts \<and> e \<in> set (Extensions fd) \<and>
    (\<forall>(i, d) \<in> set fmts. \<forall>x \<in> set (Extensions d).
        ToLower (unicode_ToLower env) x = ToLower (unicode_ToLower env) e \<longrightarrow> i = fid) \<and>
    sameUpToCase e (Ext h) \<and> (isASCII e \<or> respectsCase (unicode_ToLower env)) \<longrightarrow>
      detectFormat env (RegisterFormats env cr fmts) h = fid)"
proof (intro conjI impI)
  assume "ToLower (unicode_ToLower env) (Ext p) = ToLower (unicode_ToLower env) (Ext q)"
  then show "detectFormat env cr p = detectFormat env cr q"
    by (simp add: detectFormat_def)
next
  assume a: "sameUpToCase f g \<and> (isASCII (Ext f) \<or> respectsCase (unicode_ToLower env))"
  then have "ToLower (unicode_ToLower env) (Ext f) = ToLower (unicode_ToLower env) (Ext g)"
    using sameUpToCase_Ext [of f g] sameUpToCase_ToLower by blast
  then show "detectFormat env cr f = detectFormat env cr g"
    by (simp add: detectFormat_def)
next
  let ?L = "ToLower (unicode_ToLower env)"
  assume a: "(fid, fd) \<in> set fmts \<and> e \<in> set (Extensions fd) \<and>
    (\<forall>(i, d) \<in> set fmts. \<forall>x \<in> set (Extensions d). ?L x = ?L e \<longrightarrow> i = fid) \<and>
    sameUpToCase e (Ext h) \<and> (isASCII e \<or> respectsCase (unicode_ToLower env))"
  then have key: "?L (Ext h) = ?L e"
    using sameUpToCase_ToLower [of e "Ext h" "unicode_ToLower env"] by simp
  have uniq: "\<forall>(i, d) \<in> set fmts. ?L e \<in> ?L ` set (Extensions d) \<longrightarrow> i = fid"
    using a by fastforce
  have ex: "\<exists>(i, d) \<in> set fmts. ?L e \<in> ?L ` set (Extensions d)"
    using a by blast
  have "supportedExts (RegisterFormats env cr fmts) (?L e) = Some fid"
    using register_fold_lookup [OF uniq, of "supportedExts cr"] ex
    by (simp add: RegisterFormats_def)
  then show "detectFormat env (RegisterFormats env cr fmts) h = fid"
    by (simp add: detectFormat_def key)
qed

lemma sameUpToCase_example:
  "sameUpToCase ''A.YAML'' ''a.yaml''" "sameUpToCase ''.ToML'' ''.toml''"
  "sameUpToCase ''.ToML'' ''.TOML''"
  by code_simp+

theorem detectFormat_case_insensitive_witness:
  "ToLower (unicode_ToLower env0) (Ext ''conf.d/App.Yml'') =
     ToLower (unicode_ToLower env0) (Ext ''app.yml'') \<and>
   detectFormat env0 (NewConfigReader env0 []) ''conf.d/App.Yml'' = FormatYAML \<and>
   sameUpToCase ''A.YAML'' ''a.yaml'' \<and> isASCII (Ext ''A.YAML'') \<and>
   detectFormat env0 (NewConfigReader env0 []) ''A.YAML'' = FormatYAML \<and>
   detectFormat env0 (NewConfigReader env0 []) ''a.yaml'' = FormatYAML \<and>
   sameUpToCase ''.ToML'' (Ext ''x.toml'') \<and> sameUpToCase ''.ToML'' (Ext ''X.TOML'') \<and>
   detectFormat env0 (RegisterFormats env0 (NewConfigReader env0 []) tomlFormat) ''x.toml'' = 3 \<and>
   detectFormat env0 (RegisterFormats env0 (NewConfigReader env0 []) tomlFormat) ''X.TOML'' = 3"
proof -
  have y: "detectFormat env0 (NewConfigReader env0 []) ''a.yaml'' = FormatYAML"
    "detectFormat env0 (NewConfigReader env0 []) ''app.yml'' = FormatYAML"
    by (simp_all add: file_eval reader_eval string_eval env0_eval)
  have x: "Ext ''x.toml'' = ''.toml''" "Ext ''X.TOML'' = ''.TOML''" "Ext ''A.YAML'' = ''.YAML''"
    by (simp_all add: Ext_def)
  have a: "isASCII ''.ToML''" "isASCII ''.YAML''"
    by (simp_all add: isASCII_def)
  have l: "ToLower (unicode_ToLower env0) (Ext ''conf.d/App.Yml'') =
     ToLower (unicode_ToLower env0) (Ext ''app.yml'')"
    by (simp add: string_eval)
  show ?thesis
    using detectFormat_case_insensitive [where env = env0 and cr = "NewConfigReader env0 []"
        and p = "''conf.d/App.Yml''" and q = "''app.yml''"
        and f = "''A.YAML''" and g = "''a.yaml''" and fid = 3
        and fd = "\<lparr>Name = ''toml'', Extensions = [''.ToML''], Unmarshal = Some toy_Unmarshal\<rparr>"
        and fmts = tomlFormat and e = "''.ToML''" and h = "''x.toml''"]
      detectFormat_case_insensitive [where env = env0 and cr = "NewConfigReader env0 []"
        and fid = 3
        and fd = "\<lparr>Name = ''toml'', Extensions = [''.ToML''], Unmarshal = Some toy_Unmarshal\<rparr>"
        and fmts = tomlFormat and e = "''.ToML''" and h = "''X.TOML''", THEN conjunct2,
        THEN conjunct2]
      y l sameUpToCase_example
    by (simp add: x a tomlFormat_def)
qed

subsection \<open>The unknown format\<close>

lemma maps_Copy_dom: "k \<in> dom dst \<Longrightarrow> k \<in> dom (maps_Copy dst src)"
  unfolding maps_Copy_def
  by (induction src arbitrary: dst) (auto split: prod.splits)

lemma packageOptions_keep:
  "opt \<in> packageOptions \<Longrightarrow>
   supportedExts (opt cr) = supportedExts cr \<and> formats (opt cr) = formats cr"
  by (auto simp: packageOptions_def WithLogger_def WithStrictMode_def WithMaxFileSize_def
      WithDefaultPath_def WithRecursive_def)

lemma fold_packageOptions_keep:
  "set opts \<subseteq> packageOptions \<Longrightarrow>
   supportedExts (fold (\<lambda>opt cr. opt cr) opts cr) = supportedExts cr \<and>
   formats (fold (\<lambda>opt cr. opt cr) opts cr) = formats cr"
  by (induction opts arbitrary: cr) (auto simp: packageOptions_keep)

lemma ToLower_Nil: "ToLower u [] = []"
  by (simp add: ToLower_def isASCII_def)

lemma register_fold_owner:
  "fold (\<lambda>(formatID, formatData) m. registerExts env formatID (Extensions formatData) m) fmts m k
     = Some fid \<Longrightarrow>
   m k = Some fid \<or>
   (\<exists>(i, d) \<in> set fmts. i = fid \<and> k \<in> ToLower (unicode_ToLower env) ` set (Extensions d))"
proof (induction fmts arbitrary: m)
  case Nil
  then show ?case by simp
next
  case (Cons a fmts)
  obtain i d where a: "a = (i, d)" by (cases a)
  show ?case using Cons.prems Cons.IH [of "registerExts env i (Extensions d) m"]
    by (auto simp: a registerExts_lookup split: if_splits)
qed

lemma NewConfigReader_tables:
  assumes "set opts \<subseteq> packageOptions"
  shows "supportedExts (NewConfigReader env opts) =
           [[] \<mapsto> FormatUnknown, ''.yaml'' \<mapsto> FormatYAML, ''.yml'' \<mapsto> FormatYAML,
            ''.json'' \<mapsto> FormatJSON]"
    and "dom (formats (NewConfigReader env opts)) = {FormatUnknown, FormatYAML, FormatJSON}"
  using fold_packageOptions_keep [OF assms]
  by (auto simp: NewConfigReader_def RegisterFormats_def DefaultFormats_def registerExts_def
      maps_Copy_def string_eval)

text \<open>
  C8 (as stated, it fails). \<open>RegisterFormats\<close> stores whatever the map lists: after a
  map that lists \<open>.txt\<close> under the identifier \<open>FormatUnknown\<close>, the unknown format owns
  that extension.
\<close>

theorem unknown_can_own_extension:
  "supportedExts (RegisterFormats env0 (NewConfigReader env0 []) txtAsUnknown) ''.txt'' =
     Some FormatUnknown"
  by (simp add: reader_eval string_eval txtAsUnknown_def)

text \<open>
  C8 (amended). After construction with the package's options the catalog has an entry for
  \<open>FormatUnknown\<close>, which owns the empty extension and no other. A registration keeps
  the entry in the catalog. If \<open>FormatUnknown\<close> owns no extension but the empty one
  before a registration and the map lists no other extension under \<open>FormatUnknown\<close>,
  it owns no extension but the empty one after it. Detection returns \<open>FormatUnknown\<close>
  when the lower-cased extension has no owner. Nothing enforces the invariant: an
  extension that the map lists under \<open>FormatUnknown\<close>, and under no other identifier,
  is owned by \<open>FormatUnknown\<close> after the registration.
\<close>

theorem unknown_format_sentinel:
  "(set opts \<subseteq> packageOptions \<longrightarrow>
      FormatUnknown \<in> dom (formats (NewConfigReader env opts)) \<and>
      (\<forall>ext. supportedExts (NewConfigReader env opts) ext = Some FormatUnknown \<longleftrightarrow> ext = [])) \<and>
   (FormatUnknown \<in> dom (formats cr) \<longrightarrow>
      FormatUnknown \<in> dom (formats (RegisterFormats env cr fmts))) \<and>
   ((\<forall>ext. supportedExts cr ext = Some FormatUnknown \<longrightarrow> ext = []) \<and>
    (\<forall>(i, d) \<in> set fmts. i = FormatUnknown \<longrightarrow> set (Extensions d) \<subseteq> {[]}) \<longrightarrow>
      (\<forall>ext. supportedExts (RegisterFormats env cr fmts) ext = Some FormatUnknown \<longrightarrow> ext = [])) \<and>
   (supportedExts cr (ToLower (unicode_ToLower env) (Ext f)) = None \<longrightarrow>
      detectFormat env cr f = FormatUnknown) \<and>
   ((FormatUnknown, ud) \<in> set fmts \<and> ux \<in> set (Extensions ud) \<and>
    (\<forall>(i, d) \<in> set fmts. \<forall>y \<in> set (Extensions d).
        ToLower (unicode_ToLower env) y = ToLower (unicode_ToLower env) ux \<longrightarrow>
        i = FormatUnknown) \<longrightarrow>
      supportedExts (RegisterFormats env cr fmts) (ToLower (unicode_ToLower env) ux) =
        Some FormatUnknown)"
proof (intro conjI impI allI)
  assume "set opts \<subseteq> packageOptions"
  then show "FormatUnknown \<in> dom (formats (NewConfigReader env opts))"
    by (simp add: NewConfigReader_tables)
next
  fix ext
  assume "set opts \<subseteq> packageOptions"
  then show "supportedExts (NewConfigReader env opts) ext = Some FormatUnknown \<longleftrightarrow> ext = []"
    by (simp add: NewConfigReader_tables FormatUnknown_def FormatYAML_def FormatJSON_def)
next
  assume "FormatUnknown \<in> dom (formats cr)"
  then show "FormatUnknown \<in> dom (formats (RegisterFormats env cr fmts))"
    by (simp add: RegisterFormats_def maps_Copy_dom)
next
  fix ext
  assume inv: "(\<forall>ext. supportedExts cr ext = Some FormatUnknown \<longrightarrow> ext = []) \<and>
    (\<forall>(i, d) \<in> set fmts. i = FormatUnknown \<longrightarrow> set (Extensions d) \<subseteq> {[]})"
    and own: "supportedExts (RegisterFormats env cr fmts) ext = Some FormatUnknown"
  from own have "supportedExts cr ext = Some FormatUnknown \<or>
      (\<exists>(i, d) \<in> set fmts. i = FormatUnknown \<and>
         ext \<in> ToLower (unicode_ToLower env) ` set (Extensions d))"
    using register_fold_owner [of env fmts "supportedExts cr" ext FormatUnknown]
    by (simp add: RegisterFormats_def)
  then show "ext = []"
  proof
    assume "supportedExts cr ext = Some FormatUnknown"
    then show ?thesis using inv by simp
  next
    assume "\<exists>(i, d) \<in> set fmts. i = FormatUnknown \<and>
         ext \<in> ToLower (unicode_ToLower env) ` set (Extensions d)"
    then obtain d x where "(FormatUnknown, d) \<in> set fmts" and "x \<in> set (Extensions d)"
      and "ext = ToLower (unicode_ToLower env) x" by auto
    moreover have "x = []" using inv calculation by auto
    ultimately show ?thesis by (simp add: ToLower_Nil)
  qed
next
  assume "supportedExts cr (ToLower (unicode_ToLower env) (Ext f)) = None"
  then show "detectFormat env cr f = FormatUnknown"
    by (simp add: detectFormat_def)
next
  let ?L = "ToLower (unicode_ToLower env)"
  assume a: "(FormatUnknown, ud) \<in> set fmts \<and> ux \<in> set (Extensions ud) \<and>
    (\<forall>(i, d) \<in> set fmts. \<forall>y \<in> set (Extensions d). ?L y = ?L ux \<longrightarrow> i = FormatUnknown)"
  have uniq: "\<forall>(i, d) \<in> set fmts. ?L ux \<in> ?L ` set (Extensions d) \<longrightarrow> i = FormatUnknown"
    using a by fastforce
  have ex: "\<exists>(i, d) \<in> set fmts. ?L ux \<in> ?L ` set (Extensions d)"
    using a by blast
  show "supportedExts (RegisterFormats env cr fmts) (?L ux) = Some FormatUnknown"
    using register_fold_lookup [OF uniq, of "supportedExts cr"] ex
    by (simp add: RegisterFormats_def)
qed

theorem unknown_format_sentinel_witness:
  "set [WithStrictMode True, WithRecursive True] \<subseteq> (packageOptions :: string ConfigReaderOption set) \<and>
   FormatUnknown \<in> dom (formats (NewConfigReader env0 [WithStrictMode True, WithRecursive True])) \<and>
   FormatUnknown \<in> dom (formats (RegisterFormats env0
      (NewConfigReader env0 [WithStrictMode True, WithRecursive True]) tomlFormat)) \<and>
   (\<forall>ext. (supportedExts (NewConfigReader env0 [WithStrictMode True, WithRecursive True]) ext =
      Some FormatUnknown) = (ext = [])) \<and>
   (\<forall>ext. (supportedExts (RegisterFormats env0
      (NewConfigReader env0 [WithStrictMode True, WithRecursive True]) tomlFormat) ext =
      Some FormatUnknown) = (ext = [])) \<and>
   detectFormat env0 (NewConfigReader env0 [WithStrictMode True, WithRecursive True])
      ''notes.txt'' = FormatUnknown \<and>
   supportedExts (RegisterFormats env0
      (NewConfigReader env0 [WithStrictMode True, WithRecursive True]) txtAsUnknown) ''.txt'' =
      Some FormatUnknown"
proof -
  let ?cr = "NewConfigReader env0 [WithStrictMode True, WithRecursive True] :: string ConfigReader"
  have o: "set [WithStrictMode True, WithRecursive True] \<subseteq> (packageOptions :: string ConfigReaderOption set)"
    by (simp add: packageOptions_def)
  have t: "\<forall>(i, d) \<in> set tomlFormat. i = FormatUnknown \<longrightarrow> set (Extensions d) \<subseteq> {[]}"
    by (simp add: tomlFormat_def FormatUnknown_def)
  have n: "supportedExts ?cr (ToLower (unicode_ToLower env0) (Ext ''notes.txt'')) = None"
    by (simp add: NewConfigReader_tables [OF o] string_eval)
  have e: "supportedExts (RegisterFormats env0 ?cr tomlFormat) [] = Some FormatUnknown"
    by (simp add: RegisterFormats_def NewConfigReader_tables [OF o] tomlFormat_def
        registerExts_def string_eval)
  have l: "ToLower (unicode_ToLower env0) ''.txt'' = ''.txt''"
    by (simp add: string_eval)
  have x: "(FormatUnknown, \<lparr>Name = ''text'', Extensions = [''.txt''], Unmarshal = None\<rparr>)
      \<in> set txtAsUnknown \<and>
    ''.txt'' \<in> set (Extensions \<lparr>Name = ''text'', Extensions = [''.txt''],
      Unmarshal = (None :: (string \<Rightarrow> error + string) option)\<rparr>) \<and>
    (\<forall>(i, d) \<in> set txtAsUnknown. \<forall>y \<in> set (Extensions d).
        ToLower (unicode_ToLower env0) y = ToLower (unicode_ToLower env0) ''.txt'' \<longrightarrow>
        i = FormatUnknown)"
    by (simp add: txtAsUnknown_def)
  have u: "supportedExts (RegisterFormats env0 ?cr txtAsUnknown) ''.txt'' = Some FormatUnknown"
    using unknown_format_sentinel [where env = env0 and cr = ?cr and fmts = txtAsUnknown
        and ud = "\<lparr>Name = ''text'', Extensions = [''.txt''], Unmarshal = None\<rparr>"
        and ux = "''.txt''", THEN conjunct2, THEN conjunct2, THEN conjunct2, THEN conjunct2,
        THEN mp, OF x]
    by (simp add: l)
  show ?thesis
    using unknown_format_sentinel [where opts = "[WithStrictMode True, WithRecursive True]"
        and env = env0 and cr = ?cr and fmts = tomlFormat and f = "''notes.txt''"] o t n e u
    by auto
qed

subsection \<open>The order of a registration\<close>

text \<open>
  Go visits the entries of a map in an order that is not specified. A registration does
  not depend on it when no extension is listed under two identifiers; the default formats
  are such a map, so \<open>NewConfigReader\<close> builds the same reader in every order.
\<close>

lemma maps_Copy_map_of: "maps_Copy dst src = dst ++ map_of (rev src)"
proof -
  define f :: "'a \<times> 'b \<Rightarrow> ('a \<rightharpoonup> 'b) \<Rightarrow> ('a \<rightharpoonup> 'b)" where "f = (\<lambda>(k, v) m. m(k \<mapsto> v))"
  have "fold f src dst = dst ++ map_of (rev src)"
  proof (induction src arbitrary: dst)
    case Nil
    then show ?case by simp
  next
    case (Cons a src)
    obtain k v where a: "a = (k, v)" by (cases a)
    have "fold f (a # src) dst = fold f src (dst(k \<mapsto> v))"
      by (simp add: a f_def)
    also have "\<dots> = dst(k \<mapsto> v) ++ map_of (rev src)"
      by (rule Cons)
    also have "\<dots> = dst ++ map_of (rev (a # src))"
      by (simp add: a)
    finally show ?case .
  qed
  then show ?thesis by (simp add: maps_Copy_def f_def)
qed

lemma RegisterFormats_order:
  assumes "set fmts' = set fmts" and "distinct (map fst fmts)" and "distinct (map fst fmts')"
    and "\<forall>(i, d) \<in> set fmts. \<forall>(j, d') \<in> set fmts.
           ToLower (unicode_ToLower env) ` set (Extensions d) \<inter>
           ToLower (unicode_ToLower env) ` set (Extensions d') \<noteq> {} \<longrightarrow> i = j"
  shows "RegisterFormats env cr fmts' = RegisterFormats env cr fmts"
proof -
  let ?L = "ToLower (unicode_ToLower env)"
  let ?reg = "\<lambda>fs. fold (\<lambda>(formatID, formatData) m.
                 registerExts env formatID (Extensions formatData) m) fs (supportedExts cr)"
  have "?reg fmts' k = ?reg fmts k" for k
  proof (cases "\<exists>(i, d) \<in> set fmts. k \<in> ?L ` set (Extensions d)")
    case True
    then obtain i d where id: "(i, d) \<in> set fmts" "k \<in> ?L ` set (Extensions d)" by auto
    have u: "\<forall>(j, d') \<in> set fmts. k \<in> ?L ` set (Extensions d') \<longrightarrow> j = i"
    proof clarify
      fix j d' x
      assume jd: "(j, d') \<in> set fmts" and x: "x \<in> set (Extensions d')" "k = ?L x"
      have "?L ` set (Extensions d') \<inter> ?L ` set (Extensions d) \<noteq> {}"
        using id(2) x by blast
      then show "j = i" using assms(4) jd id(1) by blast
    qed
    then have u': "\<forall>(j, d') \<in> set fmts'. k \<in> ?L ` set (Extensions d') \<longrightarrow> j = i"
      using assms(1) by simp
    show ?thesis
      using register_fold_lookup [OF u, of "supportedExts cr"]
        register_fold_lookup [OF u', of "supportedExts cr"] assms(1) by simp
  next
    case False
    then have u: "\<forall>(j, d') \<in> set fmts. k \<in> ?L ` set (Extensions d') \<longrightarrow> j = 0"
      and u': "\<forall>(j, d') \<in> set fmts'. k \<in> ?L ` set (Extensions d') \<longrightarrow> j = 0"
      using assms(1) by auto
    show ?thesis
      using register_fold_lookup [OF u, of "supportedExts cr"]
        register_fold_lookup [OF u', of "supportedExts cr"] assms(1) by simp
  qed
  then have ext: "?reg fmts' = ?reg fmts" by (rule ext)
  have "distinct (map fst (rev fmts'))" and "distinct (map fst (rev fmts))"
    using assms(2,3) by (simp_all only: rev_map [symmetric] distinct_rev)
  moreover have "set (rev fmts') = set (rev fmts)"
    using assms(1) by simp
  ultimately have "map_of (rev fmts') = map_of (rev fmts)"
    by (simp only: map_of_inject_set)
  then have "maps_Copy (formats cr) fmts' = maps_Copy (formats cr) fmts"
    by (simp add: maps_Copy_map_of)
  then show ?thesis using ext by (simp add: RegisterFormats_def)
qed



lemma DefaultFormats_order:
  assumes "set fmts = set (DefaultFormats env)" and "distinct (map fst fmts)"
  shows "RegisterFormats env cr fmts = RegisterFormats env cr (DefaultFormats env)"
proof (rule RegisterFormats_order [OF assms(1) _ assms(2)])
  show "distinct (map fst (DefaultFormats env))"
    by (simp add: DefaultFormats_def FormatUnknown_def FormatYAML_def FormatJSON_def)
  show "\<forall>(i, d) \<in> set (DefaultFormats env). \<forall>(j, d') \<in> set (DefaultFormats env).
           ToLower (unicode_ToLower env) ` set (Extensions d) \<inter>
           ToLower (unicode_ToLower env) ` set (Extensions d') \<noteq> {} \<longrightarrow> i = j"
    by (simp add: DefaultFormats_def string_eval)
qed

subsection \<open>Entries, events and the two scans\<close>

lemma processFile_reads:
  "processFile cr env fullPath info rds =
     (case processFile cr env fullPath info [] of
        Panic \<Rightarrow> Panic
      | Return (rds1, r) \<Rightarrow> Return (rds @ rds1, r))"
  by (auto simp: processFile_def readAndParseFile_def Let_def split: sum.splits option.splits)

lemma processEntry_Crashed:
  "verdict cr env dir entry = Crashed \<Longrightarrow> processEntry cr env dir entry s = Panic"
  unfolding verdict_def processEntry_def Let_def
  by (subst processFile_reads) (auto split: sum.splits outcome.splits option.splits)

lemma processEntry_Failed:
  assumes "verdict cr env dir entry = Failed err"
  shows "\<exists>s1. processEntry cr env dir entry s =
            Return (s1, if strictMode cr then Some err else None) \<and>
          configs s1 = configs s \<and>
          stats s1 = (stats s)\<lparr>errors := errors (stats s) + 1,
            skipped := skipped (stats s) + (if strictMode cr then 0 else 1)\<rparr>"
  using assms unfolding verdict_def processEntry_def Let_def
  by (subst processFile_reads)
    (auto simp: incErrors_def incSkipped_def split: sum.splits outcome.splits option.splits)

lemma processEntry_Empty:
  assumes "verdict cr env dir entry = Empty"
  shows "\<exists>s1. processEntry cr env dir entry s = Return (s1, None) \<and>
          configs s1 = configs s \<and>
          stats s1 = (stats s)\<lparr>skipped := skipped (stats s) + 1\<rparr>"
  using assms unfolding verdict_def processEntry_def Let_def
  by (subst processFile_reads)
    (auto simp: incErrors_def incSkipped_def split: sum.splits outcome.splits option.splits)

lemma processEntry_Loaded:
  assumes "verdict cr env dir entry = Loaded name cfg"
  shows "name \<in> dom (configs s) \<and> strictMode cr \<Longrightarrow>
          \<exists>s1. processEntry cr env dir entry s =
            Return (s1, Some (DuplicateName name (entry_Name entry))) \<and>
          configs s1 = configs s \<and> stats s1 = stats s"
    and "\<not> (name \<in> dom (configs s) \<and> strictMode cr) \<Longrightarrow>
          \<exists>s1. processEntry cr env dir entry s = Return (s1, None) \<and>
          configs s1 = (configs s)(name \<mapsto> cfg) \<and>
          stats s1 = (stats s)\<lparr>processed := processed (stats s) + 1\<rparr>"
  using assms unfolding verdict_def processEntry_def Let_def
  by (subst processFile_reads;
      auto simp: incProcessed_def split: sum.splits outcome.splits option.splits)+


lemma processEntry_lenient:
  "\<not> strictMode cr \<Longrightarrow> processEntry cr env dir entry s \<noteq> Return (s1, Some err)"
  unfolding processEntry_def Let_def
  by (auto split: sum.splits outcome.splits option.splits)

lemma scanFlatLoop_visitAll:
  "scanFlatLoop cr env dirPath files s = visitAll cr env (flatEvents dirPath files) s"
proof (induction files arbitrary: s)
  case Nil
  then show ?case by (simp add: flatEvents_def)
next
  case (Cons f files)
  show ?case
  proof (cases "entry_IsDir f")
    case True
    then show ?thesis using Cons.IH by (simp add: flatEvents_def)
  next
    case False
    then show ?thesis
      using Cons.IH processEntry_lenient [of cr env dirPath f s]
      by (auto simp: flatEvents_def split: outcome.splits option.splits)
  qed
qed

lemma visitAll_append:
  "visitAll cr env (xs @ ys) s =
     (case visitAll cr env xs s of
        Panic \<Rightarrow> Panic
      | Return (s1, Some err) \<Rightarrow> Return (s1, Some err)
      | Return (s1, None) \<Rightarrow> visitAll cr env ys s1)"
  by (induction xs arbitrary: s) (auto split: outcome.splits option.splits)

lemma walkDir_visitAll:
  "walkDir (walkFn cr env) (filepath_Join env) path t s =
     visitAll cr env (walkEvents env path t) s"
  and walkDirs_visitAll:
  "walkDirs (walkFn cr env) (filepath_Join env) path ts s =
     visitAll cr env (walkEventsList env path ts) s"
proof (induction "walkFn cr env" "filepath_Join env" path t s
    and "walkFn cr env" "filepath_Join env" path ts s rule: walkDir_walkDirs.induct)
  case (1 path d dirs rderr s)
  show ?case
  proof (cases "entry_IsDir d")
    case False
    then show ?thesis
      by (auto simp: walkFn_def split: outcome.splits option.splits)
  next
    case True
    then have fn: "walkFn cr env path (Some d) None s = Return (s, None)"
      by (simp add: walkFn_def)
    show ?thesis
    proof (cases rderr)
      case None
      then show ?thesis using True fn "1.hyps"(1) [of "(s, None)" s None] by simp
    next
      case (Some e)
      have same: "walkFn cr env path (Some d) (Some e) s = walkFn cr env path None (Some e) s"
        by (simp add: walkFn_def)
      show ?thesis
        using True fn Some same "1.hyps"(2) [of "(s, None)" s None e]
        by (auto split: outcome.splits option.splits)
    qed
  qed
next
  case (2 path s)
  then show ?case by simp
next
  case (3 path t ts s)
  show ?case
    using 3
    by (auto simp: visitAll_append split: outcome.splits option.splits)
qed


lemma loaded_Cons: "loaded cr env (ev # evs) = loaded cr env [ev] @ loaded cr env evs"
  by (simp add: loaded_def List.map_filter_def)

lemma loaded_append: "loaded cr env (xs @ ys) = loaded cr env xs @ loaded cr env ys"
  by (simp add: loaded_def List.map_filter_def)

lemma loaded_single:
  "loaded cr env [ev] =
     (case ev of
        Visit dir entry \<Rightarrow>
          (case verdict cr env dir entry of Loaded name cfg \<Rightarrow> [(name, cfg)] | _ \<Rightarrow> [])
      | _ \<Rightarrow> [])"
  by (simp add: loaded_def List.map_filter_def split: event.splits verdict.splits)

lemma visit_one:
  assumes "\<not> crashes cr env ev"
    and "strictMode cr \<Longrightarrow> \<not> isError cr env ev \<and> fst ` set (loaded cr env [ev]) \<inter> dom (configs s) = {}"
  shows "\<exists>s1. visit cr env ev s = Return (s1, None) \<and>
           configs s1 = configs s ++ map_of (loaded cr env [ev]) \<and>
           errors (stats s1) = errors (stats s) + (if isError cr env ev then 1 else 0)"
proof (cases ev)
  case (Visit dir entry)
  show ?thesis
  proof (cases "verdict cr env dir entry")
    case (Loaded name cfg)
    then have "\<not> (name \<in> dom (configs s) \<and> strictMode cr)"
      using assms(2) Visit by (auto simp: loaded_single)
    from processEntry_Loaded(2) [OF Loaded this]
    show ?thesis using Visit Loaded by (auto simp: loaded_single)
  next
    case (Failed err)
    then have "\<not> strictMode cr" using assms(2) Visit by auto
    then show ?thesis
      using processEntry_Failed [OF Failed, of s] Visit Failed by (auto simp: loaded_single)
  next
    case Empty
    then show ?thesis
      using processEntry_Empty [OF Empty, of s] Visit by (auto simp: loaded_single)
  next
    case Crashed
    then show ?thesis using assms(1) Visit by simp
  qed
next
  case (PassBy entry)
  then show ?thesis by (simp add: loaded_single incSkipped_def)
next
  case (Inaccessible path err)
  then have "\<not> strictMode cr" using assms(2) by auto
  then show ?thesis using Inaccessible by (simp add: loaded_single walkFn_def incErrors_def)
qed

lemma quiet_Cons:
  assumes "quiet cr env seen (ev # evs)"
  shows "\<not> isError cr env ev" and "\<not> crashes cr env ev"
    and "fst ` set (loaded cr env [ev]) \<inter> seen = {}"
    and "quiet cr env (seen \<union> fst ` set (loaded cr env [ev])) evs"
  using assms unfolding quiet_def loaded_Cons [of cr env ev evs]
  by (auto simp: image_Un)

lemma visitAll_completes:
  assumes "list_all (\<lambda>ev. \<not> crashes cr env ev) evs"
    and "strictMode cr \<Longrightarrow> quiet cr env (dom (configs s)) evs"
  shows "\<exists>s1. visitAll cr env evs s = Return (s1, None) \<and>
           configs s1 = configs s ++ map_of (rev (loaded cr env evs)) \<and>
           errors (stats s1) = errors (stats s) + length (filter (isError cr env) evs)"
  using assms
proof (induction evs arbitrary: s)
  case Nil
  then show ?case by (simp add: loaded_def List.map_filter_def)
next
  case (Cons ev evs)
  have "\<exists>s1. visit cr env ev s = Return (s1, None) \<and>
           configs s1 = configs s ++ map_of (loaded cr env [ev]) \<and>
           errors (stats s1) = errors (stats s) + (if isError cr env ev then 1 else 0)"
  proof (rule visit_one)
    show "\<not> crashes cr env ev" using Cons.prems(1) by simp
    show "\<not> isError cr env ev \<and> fst ` set (loaded cr env [ev]) \<inter> dom (configs s) = {}"
      if "strictMode cr"
      using quiet_Cons(1,3) [OF Cons.prems(2) [OF that]] by simp
  qed
  then obtain s1 where s1: "visit cr env ev s = Return (s1, None)"
    "configs s1 = configs s ++ map_of (loaded cr env [ev])"
    "errors (stats s1) = errors (stats s) + (if isError cr env ev then 1 else 0)"
    by blast
  have d: "dom (configs s1) = dom (configs s) \<union> fst ` set (loaded cr env [ev])"
    by (simp add: s1(2) dom_map_of_conv_image_fst Un_commute)
  have "\<exists>s2. visitAll cr env evs s1 = Return (s2, None) \<and>
           configs s2 = configs s1 ++ map_of (rev (loaded cr env evs)) \<and>
           errors (stats s2) = errors (stats s1) + length (filter (isError cr env) evs)"
  proof (rule Cons.IH)
    show "list_all (\<lambda>ev. \<not> crashes cr env ev) evs" using Cons.prems(1) by simp
    show "quiet cr env (dom (configs s1)) evs" if "strictMode cr"
      using quiet_Cons(4) [OF Cons.prems(2) [OF that]] by (simp add: d)
  qed
  then obtain s2 where s2: "visitAll cr env evs s1 = Return (s2, None)"
    "configs s2 = configs s1 ++ map_of (rev (loaded cr env evs))"
    "errors (stats s2) = errors (stats s1) + length (filter (isError cr env) evs)"
    by blast
  have one: "rev (loaded cr env [ev]) = loaded cr env [ev]"
    by (simp add: loaded_single split: event.splits verdict.splits)
  have "configs s2 = configs s ++ map_of (rev (loaded cr env (ev # evs)))"
    unfolding loaded_Cons [of cr env ev evs] by (simp add: s2(2) s1(2) one)
  then show ?case using s1 s2 by simp
qed

lemma visitAll_stops:
  assumes "visitAll cr env pre s = Return (s1, None)"
    and "visit cr env ev s1 = Return (s2, Some err)"
  shows "visitAll cr env (pre @ ev # post) s = Return (s2, Some err)"
  using assms by (simp add: visitAll_append)

lemma scanRecursive_visitAll:
  "recursive cr \<Longrightarrow>
   scanRecursive cr env dirPath s = visitAll cr env (traversal cr env dirPath) s"
  by (auto simp: scanRecursive_def WalkDir_def traversal_def walkDir_visitAll
      split: sum.splits outcome.splits option.splits)

lemma scanFlat_visitAll:
  "\<not> recursive cr \<Longrightarrow> snd (os_ReadDir env dirPath) = None \<Longrightarrow>
   scanFlat cr env dirPath s = visitAll cr env (traversal cr env dirPath) s"
  by (cases "os_ReadDir env dirPath")
    (simp add: scanFlat_def traversal_def scanFlatLoop_visitAll)

lemma ReadDirMap_visitAll:
  assumes "scanStarts cr env dirPath0 dirPath"
  shows "(if recursive cr then scanRecursive cr env dirPath newScan
          else scanFlat cr env dirPath newScan) =
         visitAll cr env (traversal cr env dirPath) newScan"
    and "ReadDirMap cr env dirPath0 =
     (case visitAll cr env (traversal cr env dirPath) newScan of
        Panic \<Rightarrow> Panic
      | Return (s, Some err) \<Rightarrow> Return (None, Some err)
      | Return (s, None) \<Rightarrow> Return (Some (configs s), None))"
proof -
  show scan: "(if recursive cr then scanRecursive cr env dirPath newScan
          else scanFlat cr env dirPath newScan) =
         visitAll cr env (traversal cr env dirPath) newScan"
    using assms by (auto simp: scanStarts_def scanRecursive_visitAll scanFlat_visitAll)
  obtain info where stat: "os_Stat env dirPath = Inr info" "info_IsDir info"
    using assms by (auto simp: scanStarts_def split: sum.splits)
  have dp: "(if dirPath0 = [] then defaultPath cr else dirPath0) = dirPath"
    using assms by (simp add: scanStarts_def)
  show "ReadDirMap cr env dirPath0 =
     (case visitAll cr env (traversal cr env dirPath) newScan of
        Panic \<Rightarrow> Panic
      | Return (s, Some err) \<Rightarrow> Return (None, Some err)
      | Return (s, None) \<Rightarrow> Return (Some (configs s), None))"
    unfolding scan [symmetric] ReadDirMap_def Let_def dp by (simp add: stat)
qed

lemma lenient_scan:
  assumes "scanStarts cr env dirPath0 dirPath" and "\<not> strictMode cr"
    and "list_all (\<lambda>ev. \<not> crashes cr env ev) (traversal cr env dirPath)"
  shows "\<exists>s. (if recursive cr then scanRecursive cr env dirPath newScan
              else scanFlat cr env dirPath newScan) = Return (s, None) \<and>
             configs s = map_of (rev (loaded cr env (traversal cr env dirPath))) \<and>
             errors (stats s) = length (filter (isError cr env) (traversal cr env dirPath)) \<and>
             ReadDirMap cr env dirPath0 = Return (Some (configs s), None)"
proof -
  have "\<exists>s. visitAll cr env (traversal cr env dirPath) newScan = Return (s, None) \<and>
     configs s = map_of (rev (loaded cr env (traversal cr env dirPath))) \<and>
     errors (stats s) = length (filter (isError cr env) (traversal cr env dirPath))"
    using visitAll_completes [of cr env "traversal cr env dirPath" newScan] assms(2,3)
    by (simp add: newScan_def)
  then obtain s where "visitAll cr env (traversal cr env dirPath) newScan = Return (s, None)"
    and "configs s = map_of (rev (loaded cr env (traversal cr env dirPath)))"
    and "errors (stats s) = length (filter (isError cr env) (traversal cr env dirPath))"
    by blast
  then show ?thesis
    using ReadDirMap_visitAll [OF assms(1)] by (simp add: newScan_def)
qed


lemma strict_scan_stops:
  assumes "scanStarts cr env dirPath0 dirPath"
    and "traversal cr env dirPath = pre @ ev # post" and "quiet cr env {} pre"
    and "\<And>s1. configs s1 = map_of (rev (loaded cr env pre)) \<Longrightarrow>
           \<exists>s2. visit cr env ev s1 = Return (s2, Some err)"
  shows "ReadDirMap cr env dirPath0 = Return (None, Some err)"
proof -
  have "list_all (\<lambda>ev. \<not> crashes cr env ev) pre"
    using assms(3) by (simp add: quiet_def list_all_iff)
  then have "\<exists>s1. visitAll cr env pre newScan = Return (s1, None) \<and>
      configs s1 = map_of (rev (loaded cr env pre))"
    using visitAll_completes [of cr env pre newScan] assms(3) by (auto simp: newScan_def)
  then obtain s1 where s1: "visitAll cr env pre newScan = Return (s1, None)"
    and c: "configs s1 = map_of (rev (loaded cr env pre))"
    by blast
  then obtain s2 where "visit cr env ev s1 = Return (s2, Some err)"
    using assms(4) [of s1] by auto
  then have "visitAll cr env (traversal cr env dirPath) newScan = Return (s2, Some err)"
    using visitAll_stops [OF s1] assms(2) by simp
  then show ?thesis using ReadDirMap_visitAll(2) [OF assms(1)] by simp
qed

subsection \<open>Strict and lenient scans\<close>

lemma Failed_wrapped:
  "verdict cr env dir entry = Failed err \<Longrightarrow>
   \<exists>cause. err = ProcessError (entry_Name entry) cause \<or> err = InfoError (entry_Name entry) cause"
  by (auto simp: verdict_def split: sum.splits outcome.splits option.splits)

text \<open>
  C3 (as stated, it fails). The error of a strict scan is annotated with the name of
  the file (\<^verbatim>\<open>entry.Name()\<close>), not with its path: the malformed files
  \<open>conf/bad.yaml\<close>, \<open>other/bad.yaml\<close> and \<open>nest/sub/bad.yaml\<close> give one and the same
  error, in which no directory appears.
\<close>

theorem strict_error_names_the_file_only:
  "ReadDirMap (NewConfigReader env0 [WithStrictMode True]) env0 ''conf'' =
     Return (None,
       Some (ProcessError ''bad.yaml'' (ParseError ''yaml'' (External ''malformed'')))) \<and>
   ReadDirMap (NewConfigReader env0 [WithStrictMode True]) env0 ''other'' =
     Return (None,
       Some (ProcessError ''bad.yaml'' (ParseError ''yaml'' (External ''malformed'')))) \<and>
   ReadDirMap (NewConfigReader env0 [WithStrictMode True, WithRecursive True]) env0 ''nest'' =
     Return (None,
       Some (ProcessError ''bad.yaml'' (ParseError ''yaml'' (External ''malformed''))))"
  by (simp add: ReadDirMap_def scanFlat_def scanRecursive_def WalkDir_def walkFn_def
      processEntry_def newScan_def incErrors_def incSkipped_def incProcessed_def
      file_eval reader_eval string_eval env0_eval WithStrictMode_def WithRecursive_def)

text \<open>
  C3 (amended). Take a scan that starts (flat or recursive). In lenient mode, if no entry
  makes the loader panic, the scan completes: the result map holds exactly the entries
  that were loaded (a later one replacing an earlier one of the same name), and the error
  counter is the number of error events, the failing files among them. In strict mode,
  if the events before a failing file are quiet, \<open>ReadDirMap\<close> returns no map and the
  error of that file: an \<open>InfoError\<close> or a \<open>ProcessError\<close> that wraps the cause and is
  annotated with the name of the file, not with its path.
\<close>

theorem scan_error_policy:
  assumes "scanStarts cr env dirPath0 dirPath"
  shows "(\<not> strictMode cr \<and> list_all (\<lambda>ev. \<not> crashes cr env ev) (traversal cr env dirPath) \<longrightarrow>
           (\<exists>s. (if recursive cr then scanRecursive cr env dirPath newScan
                 else scanFlat cr env dirPath newScan) = Return (s, None) \<and>
                configs s = map_of (rev (loaded cr env (traversal cr env dirPath))) \<and>
                errors (stats s) = length (filter (isError cr env) (traversal cr env dirPath)) \<and>
                ReadDirMap cr env dirPath0 = Return (Some (configs s), None))) \<and>
         (strictMode cr \<and> traversal cr env dirPath = pre @ Visit dir entry # post \<and>
          quiet cr env {} pre \<and> verdict cr env dir entry = Failed err \<longrightarrow>
            ReadDirMap cr env dirPath0 = Return (None, Some err) \<and>
            (\<exists>cause. err = ProcessError (entry_Name entry) cause \<or>
                     err = InfoError (entry_Name entry) cause))"
proof (intro conjI impI)
  assume "\<not> strictMode cr \<and> list_all (\<lambda>ev. \<not> crashes cr env ev) (traversal cr env dirPath)"
  then show "\<exists>s. (if recursive cr then scanRecursive cr env dirPath newScan
                 else scanFlat cr env dirPath newScan) = Return (s, None) \<and>
                configs s = map_of (rev (loaded cr env (traversal cr env dirPath))) \<and>
                errors (stats s) = length (filter (isError cr env) (traversal cr env dirPath)) \<and>
                ReadDirMap cr env dirPath0 = Return (Some (configs s), None)"
    using lenient_scan [OF assms] by simp
next
  assume a: "strictMode cr \<and> traversal cr env dirPath = pre @ Visit dir entry # post \<and>
          quiet cr env {} pre \<and> verdict cr env dir entry = Failed err"
  show "ReadDirMap cr env dirPath0 = Return (None, Some err)"
  proof (rule strict_scan_stops [OF assms])
    show "traversal cr env dirPath = pre @ Visit dir entry # post" using a by simp
    show "quiet cr env {} pre" using a by simp
    show "\<exists>s2. visit cr env (Visit dir entry) s1 = Return (s2, Some err)" for s1 :: "'a scan"
      using processEntry_Failed [of cr env dir entry err s1] a by auto
  qed
  show "\<exists>cause. err = ProcessError (entry_Name entry) cause \<or>
                     err = InfoError (entry_Name entry) cause"
    using a Failed_wrapped by blast
qed

lemmas verdict_eval = verdict_def file_eval reader_eval string_eval env0_eval
  WithStrictMode_def WithRecursive_def

lemma conf_verdicts:
  "verdict (NewConfigReader env0 []) env0 ''conf'' (regularFile ''app.yaml'' 8) =
     Loaded ''app'' ''port: 80''"
  "verdict (NewConfigReader env0 []) env0 ''conf'' (regularFile ''bad.yaml'' 1) =
     Failed (ProcessError ''bad.yaml'' (ParseError ''yaml'' (External ''malformed'')))"
  "verdict (NewConfigReader env0 [WithStrictMode True]) env0 ''conf''
     (regularFile ''app.yaml'' 8) = Loaded ''app'' ''port: 80''"
  "verdict (NewConfigReader env0 [WithStrictMode True]) env0 ''conf''
     (regularFile ''bad.yaml'' 1) =
     Failed (ProcessError ''bad.yaml'' (ParseError ''yaml'' (External ''malformed'')))"
  by (simp_all add: verdict_eval)

lemma conf_traversal:
  "traversal (NewConfigReader env0 []) env0 ''conf'' =
     [Visit ''conf'' (regularFile ''app.yaml'' 8), Visit ''conf'' (regularFile ''bad.yaml'' 1)]"
  "traversal (NewConfigReader env0 [WithStrictMode True]) env0 ''conf'' =
     [Visit ''conf'' (regularFile ''app.yaml'' 8)] @
       Visit ''conf'' (regularFile ''bad.yaml'' 1) # []"
  by (simp_all add: traversal_def flatEvents_def reader_eval env0_eval WithStrictMode_def)

lemma conf_starts:
  "scanStarts (NewConfigReader env0 []) env0 ''conf'' ''conf''"
  "scanStarts (NewConfigReader env0 [WithStrictMode True]) env0 ''conf'' ''conf''"
  by (simp_all add: scanStarts_def reader_eval env0_eval WithStrictMode_def)

theorem scan_error_policy_witness:
  "scanStarts (NewConfigReader env0 []) env0 ''conf'' ''conf'' \<and>
   \<not> strictMode (NewConfigReader env0 [] :: string ConfigReader) \<and>
   (\<exists>s. scanFlat (NewConfigReader env0 []) env0 ''conf'' newScan = Return (s, None) \<and>
        errors (stats s) = 1) \<and>
   ReadDirMap (NewConfigReader env0 []) env0 ''conf'' =
     Return (Some [''app'' \<mapsto> ''port: 80''], None) \<and>
   strictMode (NewConfigReader env0 [WithStrictMode True] :: string ConfigReader) \<and>
   quiet (NewConfigReader env0 [WithStrictMode True]) env0 {}
     [Visit ''conf'' (regularFile ''app.yaml'' 8)] \<and>
   ReadDirMap (NewConfigReader env0 [WithStrictMode True]) env0 ''conf'' =
     Return (None,
       Some (ProcessError ''bad.yaml'' (ParseError ''yaml'' (External ''malformed''))))"
proof -
  have m: "\<not> strictMode (NewConfigReader env0 [] :: string ConfigReader)"
    "\<not> recursive (NewConfigReader env0 [] :: string ConfigReader)"
    "strictMode (NewConfigReader env0 [WithStrictMode True] :: string ConfigReader)"
    by (simp_all add: reader_eval WithStrictMode_def)
  have q: "quiet (NewConfigReader env0 [WithStrictMode True]) env0 {}
     [Visit ''conf'' (regularFile ''app.yaml'' 8)]"
    by (simp add: quiet_def loaded_def List.map_filter_def conf_verdicts)
  have c: "list_all (\<lambda>ev. \<not> crashes (NewConfigReader env0 []) env0 ev)
     (traversal (NewConfigReader env0 []) env0 ''conf'')"
    by (simp add: conf_traversal conf_verdicts)
  show ?thesis
    using scan_error_policy [OF conf_starts(1), of "[]" "''conf''" "regularFile ''bad.yaml'' 1" "[]"
        "ProcessError ''bad.yaml'' (ParseError ''yaml'' (External ''malformed''))"]
      scan_error_policy [OF conf_starts(2), of "[Visit ''conf'' (regularFile ''app.yaml'' 8)]"
        "''conf''" "regularFile ''bad.yaml'' 1" "[]"
        "ProcessError ''bad.yaml'' (ParseError ''yaml'' (External ''malformed''))"]
      m q c conf_starts
    by (auto simp: conf_traversal conf_verdicts loaded_def List.map_filter_def)
qed

subsection \<open>Duplicate names\<close>

lemma map_of_rev_last:
  assumes "name \<notin> fst ` set post"
  shows "map_of (rev (pre @ (name, cfg) # post)) name = Some cfg"
  using assms by (simp add: map_add_Some_iff map_of_eq_None_iff)

text \<open>
  C4. Take a scan that starts, and in its traversal a file that is loaded under a name.
  In lenient mode (no entry making the loader panic), if no later file of the traversal is
  loaded under that name, the result map holds this file's value under the name, whatever
  was loaded under it before. In strict mode, if the events before the file are quiet and
  one of them loaded the same name, \<open>ReadDirMap\<close> returns no map and the error
  \<open>DuplicateName\<close> for this file.
\<close>

theorem duplicate_names:
  assumes "scanStarts cr env dirPath0 dirPath"
    and "traversal cr env dirPath = pre @ Visit dir entry # post"
    and "verdict cr env dir entry = Loaded name cfg"
  shows "(\<not> strictMode cr \<and> list_all (\<lambda>ev. \<not> crashes cr env ev) (traversal cr env dirPath) \<and>
          name \<notin> fst ` set (loaded cr env post) \<longrightarrow>
            (\<exists>m. ReadDirMap cr env dirPath0 = Return (Some m, None) \<and> m name = Some cfg)) \<and>
         (strictMode cr \<and> quiet cr env {} pre \<and> name \<in> fst ` set (loaded cr env pre) \<longrightarrow>
            ReadDirMap cr env dirPath0 =
              Return (None, Some (DuplicateName name (entry_Name entry))))"
proof (intro conjI impI)
  assume a: "\<not> strictMode cr \<and> list_all (\<lambda>ev. \<not> crashes cr env ev) (traversal cr env dirPath) \<and>
          name \<notin> fst ` set (loaded cr env post)"
  then obtain s :: "'a scan" where s: "configs s = map_of (rev (loaded cr env (traversal cr env dirPath)))"
    "ReadDirMap cr env dirPath0 = Return (Some (configs s), None)"
    using lenient_scan [OF assms(1)] by blast
  have "loaded cr env (traversal cr env dirPath) =
          loaded cr env pre @ (name, cfg) # loaded cr env post"
    using assms(2,3) loaded_Cons [of cr env "Visit dir entry" post]
    by (simp add: loaded_append loaded_single)
  then have "configs s name = Some cfg"
    using a map_of_rev_last [of name "loaded cr env post" "loaded cr env pre" cfg]
    by (simp add: s(1))
  then show "\<exists>m. ReadDirMap cr env dirPath0 = Return (Some m, None) \<and> m name = Some cfg"
    using s(2) by blast
next
  assume a: "strictMode cr \<and> quiet cr env {} pre \<and> name \<in> fst ` set (loaded cr env pre)"
  show "ReadDirMap cr env dirPath0 = Return (None, Some (DuplicateName name (entry_Name entry)))"
  proof (rule strict_scan_stops [OF assms(1,2)])
    show "quiet cr env {} pre" using a by simp
    show "\<exists>s2. visit cr env (Visit dir entry) s1 =
            Return (s2, Some (DuplicateName name (entry_Name entry)))"
      if "configs s1 = map_of (rev (loaded cr env pre))" for s1 :: "'a scan"
    proof -
      have "name \<in> dom (configs s1)"
        using a that by (simp add: dom_map_of_conv_image_fst)
      then show ?thesis
        using processEntry_Loaded(1) [OF assms(3), of s1] a by auto
    qed
  qed
qed

lemma dup_verdicts:
  "verdict (NewConfigReader env0 []) env0 ''dup'' (regularFile ''svc.yaml'' 4) =
     Loaded ''svc'' ''v: 1''"
  "verdict (NewConfigReader env0 []) env0 ''dup'' (regularFile ''svc.json'' 4) =
     Loaded ''svc'' ''v: 2''"
  "verdict (NewConfigReader env0 [WithStrictMode True]) env0 ''dup''
     (regularFile ''svc.yaml'' 4) = Loaded ''svc'' ''v: 1''"
  "verdict (NewConfigReader env0 [WithStrictMode True]) env0 ''dup''
     (regularFile ''svc.json'' 4) = Loaded ''svc'' ''v: 2''"
  by (simp_all add: verdict_eval)

lemma dup_traversal:
  "traversal (NewConfigReader env0 []) env0 ''dup'' =
     [Visit ''dup'' (regularFile ''svc.yaml'' 4)] @
       Visit ''dup'' (regularFile ''svc.json'' 4) # []"
  "traversal (NewConfigReader env0 [WithStrictMode True]) env0 ''dup'' =
     [Visit ''dup'' (regularFile ''svc.yaml'' 4)] @
       Visit ''dup'' (regularFile ''svc.json'' 4) # []"
  by (simp_all add: traversal_def flatEvents_def reader_eval env0_eval WithStrictMode_def)

lemma dup_starts:
  "scanStarts (NewConfigReader env0 []) env0 ''dup'' ''dup''"
  "scanStarts (NewConfigReader env0 [WithStrictMode True]) env0 ''dup'' ''dup''"
  by (simp_all add: scanStarts_def reader_eval env0_eval WithStrictMode_def)

theorem duplicate_names_witness:
  "scanStarts (NewConfigReader env0 []) env0 ''dup'' ''dup'' \<and>
   verdict (NewConfigReader env0 []) env0 ''dup'' (regularFile ''svc.yaml'' 4) =
     Loaded ''svc'' ''v: 1'' \<and>
   verdict (NewConfigReader env0 []) env0 ''dup'' (regularFile ''svc.json'' 4) =
     Loaded ''svc'' ''v: 2'' \<and>
   (\<exists>m. ReadDirMap (NewConfigReader env0 []) env0 ''dup'' = Return (Some m, None) \<and>
        m ''svc'' = Some ''v: 2'') \<and>
   quiet (NewConfigReader env0 [WithStrictMode True]) env0 {}
     [Visit ''dup'' (regularFile ''svc.yaml'' 4)] \<and>
   ReadDirMap (NewConfigReader env0 [WithStrictMode True]) env0 ''dup'' =
     Return (None, Some (DuplicateName ''svc'' ''svc.json''))"
proof -
  have m: "\<not> strictMode (NewConfigReader env0 [] :: string ConfigReader)"
    "strictMode (NewConfigReader env0 [WithStrictMode True] :: string ConfigReader)"
    by (simp_all add: reader_eval WithStrictMode_def)
  have q: "quiet (NewConfigReader env0 [WithStrictMode True]) env0 {}
     [Visit ''dup'' (regularFile ''svc.yaml'' 4)]"
    by (simp add: quiet_def loaded_def List.map_filter_def dup_verdicts)
  have c: "list_all (\<lambda>ev. \<not> crashes (NewConfigReader env0 []) env0 ev)
     (traversal (NewConfigReader env0 []) env0 ''dup'')"
    by (simp add: dup_traversal dup_verdicts)
  show ?thesis
    using duplicate_names [OF dup_starts(1) dup_traversal(1) dup_verdicts(2)]
      duplicate_names [OF dup_starts(2) dup_traversal(2) dup_verdicts(4)]
      m q c dup_starts dup_verdicts
    by (auto simp: loaded_def List.map_filter_def regularFile_def)
qed

subsection \<open>Errors of the traversal itself\<close>

text \<open>
  C2 (as stated, it fails). A flat scan in lenient mode of a directory that cannot be
  listed does not count the error and go on: \<open>ReadDirMap\<close> returns the error.
\<close>

theorem lenient_flat_scan_aborts:
  "\<not> strictMode (NewConfigReader env0 [] :: string ConfigReader) \<and>
   \<not> recursive (NewConfigReader env0 [] :: string ConfigReader) \<and>
   os_ReadDir env0 ''locked'' = ([], Some (External ''permission denied'')) \<and>
   ReadDirMap (NewConfigReader env0 []) env0 ''locked'' =
     Return (None, Some (ReadDirError (External ''permission denied'')))"
  by (simp add: ReadDirMap_def scanFlat_def reader_eval env0_eval)

text \<open>
  C2 (amended). A flat scan whose directory cannot be listed returns the wrapped error
  and leaves the state as it was, in strict and in lenient mode alike. In a recursive scan
  that starts, take a path that the walk reports as inaccessible: in lenient mode (no entry
  making the loader panic) the scan completes, the error counter has one more than the
  errors of the other events, and the map holds what is loaded before and after; in
  strict mode, if the events before are quiet, \<open>ReadDirMap\<close> returns no map and the
  \<open>AccessError\<close> for the path.
\<close>

theorem traversal_errors:
  "(os_ReadDir env dir = (files, Some rderr) \<longrightarrow>
      scanFlat cr env dir s = Return (s, Some (ReadDirError rderr))) \<and>
   (scanStarts cr env dirPath0 dirPath \<and> recursive cr \<and>
    traversal cr env dirPath = pre @ Inaccessible path err # post \<longrightarrow>
      (\<not> strictMode cr \<and>
       list_all (\<lambda>ev. \<not> crashes cr env ev) (traversal cr env dirPath) \<longrightarrow>
         (\<exists>s1. scanRecursive cr env dirPath newScan = Return (s1, None) \<and>
            errors (stats s1) =
              length (filter (isError cr env) pre) + 1 + length (filter (isError cr env) post) \<and>
            configs s1 = map_of (rev (loaded cr env pre @ loaded cr env post)) \<and>
            ReadDirMap cr env dirPath0 = Return (Some (configs s1), None))) \<and>
      (strictMode cr \<and> quiet cr env {} pre \<longrightarrow>
         ReadDirMap cr env dirPath0 = Return (None, Some (AccessError path err))))"
proof (intro conjI impI)
  assume "os_ReadDir env dir = (files, Some rderr)"
  then show "scanFlat cr env dir s = Return (s, Some (ReadDirError rderr))"
    by (simp add: scanFlat_def)
next
  assume a: "scanStarts cr env dirPath0 dirPath \<and> recursive cr \<and>
    traversal cr env dirPath = pre @ Inaccessible path err # post"
    and b: "\<not> strictMode cr \<and>
       list_all (\<lambda>ev. \<not> crashes cr env ev) (traversal cr env dirPath)"
  have l: "loaded cr env (traversal cr env dirPath) = loaded cr env pre @ loaded cr env post"
    using a loaded_Cons [of cr env "Inaccessible path err" post]
    by (simp add: loaded_append loaded_single)
  show "\<exists>s1. scanRecursive cr env dirPath newScan = Return (s1, None) \<and>
            errors (stats s1) =
              length (filter (isError cr env) pre) + 1 + length (filter (isError cr env) post) \<and>
            configs s1 = map_of (rev (loaded cr env pre @ loaded cr env post)) \<and>
            ReadDirMap cr env dirPath0 = Return (Some (configs s1), None)"
    using lenient_scan [of cr env dirPath0 dirPath] a b unfolding l by auto
next
  assume a: "scanStarts cr env dirPath0 dirPath \<and> recursive cr \<and>
    traversal cr env dirPath = pre @ Inaccessible path err # post"
    and b: "strictMode cr \<and> quiet cr env {} pre"
  show "ReadDirMap cr env dirPath0 = Return (None, Some (AccessError path err))"
  proof (rule strict_scan_stops)
    show "scanStarts cr env dirPath0 dirPath" using a by simp
    show "traversal cr env dirPath = pre @ Inaccessible path err # post" using a by simp
    show "quiet cr env {} pre" using b by simp
    show "\<exists>s2. visit cr env (Inaccessible path err) s1 =
            Return (s2, Some (AccessError path err))" for s1 :: "'a scan"
      using b by (simp add: walkFn_def)
  qed
qed

lemma tree_verdicts:
  "verdict (NewConfigReader env0 [WithRecursive True]) env0 ''tree''
     (regularFile ''a.yaml'' 4) = Loaded ''a'' ''a: 1''"
  "verdict (NewConfigReader env0 [WithRecursive True]) env0 ''tree/sub''
     (regularFile ''b.yaml'' 4) = Loaded ''b'' ''b: 2''"
  "verdict (NewConfigReader env0 [WithStrictMode True, WithRecursive True]) env0 ''tree''
     (regularFile ''a.yaml'' 4) = Loaded ''a'' ''a: 1''"
  by (simp_all add: verdict_eval)

lemma tree_traversal:
  "traversal (NewConfigReader env0 [WithRecursive True]) env0 ''tree'' =
     [Visit ''tree'' (regularFile ''a.yaml'' 4)] @
       Inaccessible ''tree/sub'' (External ''input/output error'') #
       [Visit ''tree/sub'' (regularFile ''b.yaml'' 4)]"
  "traversal (NewConfigReader env0 [WithStrictMode True, WithRecursive True]) env0 ''tree'' =
     [Visit ''tree'' (regularFile ''a.yaml'' 4)] @
       Inaccessible ''tree/sub'' (External ''input/output error'') #
       [Visit ''tree/sub'' (regularFile ''b.yaml'' 4)]"
  by (simp_all add: traversal_def reader_eval env0_eval WithStrictMode_def WithRecursive_def
      LastIndex_def)

lemma tree_starts:
  "scanStarts (NewConfigReader env0 [WithRecursive True]) env0 ''tree'' ''tree''"
  "scanStarts (NewConfigReader env0 [WithStrictMode True, WithRecursive True]) env0
     ''tree'' ''tree''"
  by (simp_all add: scanStarts_def reader_eval env0_eval WithStrictMode_def WithRecursive_def)

theorem traversal_errors_witness:
  "scanFlat (NewConfigReader env0 [WithStrictMode True]) env0 ''locked'' newScan =
     Return (newScan, Some (ReadDirError (External ''permission denied''))) \<and>
   scanFlat (NewConfigReader env0 []) env0 ''locked'' newScan =
     Return (newScan, Some (ReadDirError (External ''permission denied''))) \<and>
   scanStarts (NewConfigReader env0 [WithRecursive True]) env0 ''tree'' ''tree'' \<and>
   (\<exists>s1. scanRecursive (NewConfigReader env0 [WithRecursive True]) env0 ''tree'' newScan =
           Return (s1, None) \<and> errors (stats s1) = 1) \<and>
   ReadDirMap (NewConfigReader env0 [WithRecursive True]) env0 ''tree'' =
     Return (Some [''a'' \<mapsto> ''a: 1'', ''b'' \<mapsto> ''b: 2''], None) \<and>
   quiet (NewConfigReader env0 [WithStrictMode True, WithRecursive True]) env0 {}
     [Visit ''tree'' (regularFile ''a.yaml'' 4)] \<and>
   ReadDirMap (NewConfigReader env0 [WithStrictMode True, WithRecursive True]) env0 ''tree'' =
     Return (None, Some (AccessError ''tree/sub'' (External ''input/output error'')))"
proof -
  have r: "os_ReadDir env0 ''locked'' = ([], Some (External ''permission denied''))"
    by (simp add: env0_eval)
  have m: "\<not> strictMode (NewConfigReader env0 [WithRecursive True] :: string ConfigReader)"
    "recursive (NewConfigReader env0 [WithRecursive True] :: string ConfigReader)"
    "strictMode (NewConfigReader env0 [WithStrictMode True, WithRecursive True]
       :: string ConfigReader)"
    "recursive (NewConfigReader env0 [WithStrictMode True, WithRecursive True]
       :: string ConfigReader)"
    by (simp_all add: reader_eval WithStrictMode_def WithRecursive_def)
  have q: "quiet (NewConfigReader env0 [WithStrictMode True, WithRecursive True]) env0 {}
     [Visit ''tree'' (regularFile ''a.yaml'' 4)]"
    by (simp add: quiet_def loaded_def List.map_filter_def tree_verdicts)
  have c: "list_all (\<lambda>ev. \<not> crashes (NewConfigReader env0 [WithRecursive True]) env0 ev)
     (traversal (NewConfigReader env0 [WithRecursive True]) env0 ''tree'')"
    by (simp add: tree_traversal tree_verdicts)
  have e: "length (filter (isError (NewConfigReader env0 [WithRecursive True]) env0)
       [Visit ''tree'' (regularFile ''a.yaml'' 4)]) = 0"
    "length (filter (isError (NewConfigReader env0 [WithRecursive True]) env0)
       [Visit ''tree/sub'' (regularFile ''b.yaml'' 4)]) = 0"
    by (simp_all add: tree_verdicts)
  have l: "loaded (NewConfigReader env0 [WithRecursive True]) env0
       [Visit ''tree'' (regularFile ''a.yaml'' 4)] = [(''a'', ''a: 1'')]"
    "loaded (NewConfigReader env0 [WithRecursive True]) env0
       [Visit ''tree/sub'' (regularFile ''b.yaml'' 4)] = [(''b'', ''b: 2'')]"
    by (simp_all add: loaded_def List.map_filter_def tree_verdicts)
  have f1: "scanFlat (NewConfigReader env0 [WithStrictMode True]) env0 ''locked'' newScan =
     Return (newScan, Some (ReadDirError (External ''permission denied'')))"
    by (rule traversal_errors [THEN conjunct1, THEN mp, OF r])
  have f2: "scanFlat (NewConfigReader env0 []) env0 ''locked'' newScan =
     Return (newScan, Some (ReadDirError (External ''permission denied'')))"
    by (rule traversal_errors [THEN conjunct1, THEN mp, OF r])
  have "\<exists>s1. scanRecursive (NewConfigReader env0 [WithRecursive True]) env0 ''tree'' newScan =
           Return (s1, None) \<and>
         errors (stats s1) =
           length (filter (isError (NewConfigReader env0 [WithRecursive True]) env0)
             [Visit ''tree'' (regularFile ''a.yaml'' 4)]) + 1 +
           length (filter (isError (NewConfigReader env0 [WithRecursive True]) env0)
             [Visit ''tree/sub'' (regularFile ''b.yaml'' 4)]) \<and>
         configs s1 = map_of (rev
           (loaded (NewConfigReader env0 [WithRecursive True]) env0
              [Visit ''tree'' (regularFile ''a.yaml'' 4)] @
            loaded (NewConfigReader env0 [WithRecursive True]) env0
              [Visit ''tree/sub'' (regularFile ''b.yaml'' 4)])) \<and>
         ReadDirMap (NewConfigReader env0 [WithRecursive True]) env0 ''tree'' =
           Return (Some (configs s1), None)"
    by (rule traversal_errors [THEN conjunct2, THEN mp,
          OF conjI [OF tree_starts(1) conjI [OF m(2) tree_traversal(1)]],
          THEN conjunct1, THEN mp, OF conjI [OF m(1) c]])
  then have f3: "\<exists>s1. scanRecursive (NewConfigReader env0 [WithRecursive True]) env0 ''tree''
           newScan = Return (s1, None) \<and> errors (stats s1) = 1 \<and>
         ReadDirMap (NewConfigReader env0 [WithRecursive True]) env0 ''tree'' =
           Return (Some [''a'' \<mapsto> ''a: 1'', ''b'' \<mapsto> ''b: 2''], None)"
    unfolding e l by auto
  have f4: "ReadDirMap (NewConfigReader env0 [WithStrictMode True, WithRecursive True]) env0
       ''tree'' =
     Return (None, Some (AccessError ''tree/sub'' (External ''input/output error'')))"
    by (rule traversal_errors [THEN conjunct2, THEN mp,
          OF conjI [OF tree_starts(2) conjI [OF m(4) tree_traversal(2)]],
          THEN conjunct2, THEN mp, OF conjI [OF m(3) q]])
  show ?thesis using f1 f2 f3 f4 q tree_starts(1) by blast
qed

subsection \<open>The result of ReadDirMap\<close>

lemma visit_returns:
  assumes "\<not> crashes cr env ev"
  shows "visit cr env ev s \<noteq> Panic"
proof (cases ev)
  case (Visit dir entry)
  show ?thesis
  proof (cases "verdict cr env dir entry")
    case (Loaded name cfg)
    then show ?thesis
      using processEntry_Loaded [OF Loaded, of s] Visit by (cases "name \<in> dom (configs s) \<and> strictMode cr") auto
  next
    case (Failed err)
    then show ?thesis using processEntry_Failed [OF Failed, of s] Visit by auto
  next
    case Empty
    then show ?thesis using processEntry_Empty [OF Empty, of s] Visit by auto
  next
    case Crashed
    then show ?thesis using assms Visit by simp
  qed
next
  case (PassBy entry)
  then show ?thesis by simp
next
  case (Inaccessible path err)
  then show ?thesis by (simp add: walkFn_def)
qed

lemma visitAll_returns:
  "list_all (\<lambda>ev. \<not> crashes cr env ev) evs \<Longrightarrow> visitAll cr env evs s \<noteq> Panic"
proof (induction evs arbitrary: s)
  case Nil
  then show ?case by simp
next
  case (Cons ev evs)
  then show ?case
    using visit_returns [of cr env ev s]
    by (auto split: outcome.splits option.splits)
qed

lemma never_crashes:
  assumes "\<forall>fid fd. formats cr fid = Some fd \<longrightarrow> fid = FormatUnknown \<or> Unmarshal fd \<noteq> None"
  shows "\<not> crashes cr env ev"
proof (cases ev)
  case (Visit dir entry)
  have "verdict cr env dir entry \<noteq> Crashed"
  proof
    assume "verdict cr env dir entry = Crashed"
    then obtain info :: FileInfo and fd :: "'a FormatData" where "formats cr (detectFormat env cr (info_Name info)) = Some fd"
      and "Unmarshal fd = None" and "detectFormat env cr (info_Name info) \<noteq> FormatUnknown"
      by (auto simp: verdict_def processFile_def readAndParseFile_def Let_def
          split: sum.splits outcome.splits option.splits if_splits)
    then show False using assms by blast
  qed
  then show ?thesis using Visit by simp
qed simp_all

text \<open>
  C10. Whenever \<open>ReadDirMap\<close> returns, exactly one of the map and the error is
  \<^verbatim>\<open>nil\<close>; and it does return when no format of the catalog other than
  \<open>FormatUnknown\<close> has a \<^verbatim>\<open>nil\<close> deserializer (otherwise a file of that format
  makes the call panic).
\<close>

theorem ReadDirMap_map_or_error:
  "(ReadDirMap cr env dirPath0 = Return (m, e) \<longrightarrow> (m = None \<longleftrightarrow> e \<noteq> None)) \<and>
   ((\<forall>fid fd. formats cr fid = Some fd \<longrightarrow> fid = FormatUnknown \<or> Unmarshal fd \<noteq> None) \<longrightarrow>
      (\<exists>m e. ReadDirMap cr env dirPath0 = Return (m, e)))"
proof (intro conjI impI)
  assume "ReadDirMap cr env dirPath0 = Return (m, e)"
  then show "m = None \<longleftrightarrow> e \<noteq> None"
    by (auto simp: ReadDirMap_def Let_def split: sum.splits outcome.splits option.splits if_splits)
next
  assume u: "\<forall>fid fd. formats cr fid = Some fd \<longrightarrow> fid = FormatUnknown \<or> Unmarshal fd \<noteq> None"
  define dirPath where "dirPath = (if dirPath0 = [] then defaultPath cr else dirPath0)"
  have "ReadDirMap cr env dirPath0 \<noteq> Panic"
  proof (cases "scanStarts cr env dirPath0 dirPath")
    case True
    have "visitAll cr env (traversal cr env dirPath) newScan \<noteq> Panic"
      by (rule visitAll_returns) (simp add: list_all_iff never_crashes [OF u])
    then show ?thesis
      using ReadDirMap_visitAll(2) [OF True] by (auto split: outcome.splits option.splits)
  next
    case False
    then show ?thesis
      by (cases "os_ReadDir env dirPath")
        (auto simp: scanStarts_def ReadDirMap_def Let_def scanFlat_def dirPath_def
          split: sum.splits)
  qed
  then show "\<exists>m e. ReadDirMap cr env dirPath0 = Return (m, e)"
    by (cases "ReadDirMap cr env dirPath0") auto
qed

lemma conf_results:
  "ReadDirMap (NewConfigReader env0 []) env0 ''conf'' =
     Return (Some [''app'' \<mapsto> ''port: 80''], None)"
  "ReadDirMap (NewConfigReader env0 [WithStrictMode True]) env0 ''conf'' =
     Return (None, Some (ProcessError ''bad.yaml'' (ParseError ''yaml'' (External ''malformed''))))"
  "ReadDirMap (NewConfigReader env0 []) env0 ''empty'' = Return (Some Map.empty, None)"
  "ReadDirMap (NewConfigReader env0 []) env0 ''missing'' =
     Return (None, Some (PathInaccessible (External ''no such file or directory'')))"
  by (simp_all add: ReadDirMap_def scanFlat_def processEntry_def newScan_def
      incErrors_def incSkipped_def incProcessed_def
      file_eval reader_eval string_eval env0_eval WithStrictMode_def)

theorem ReadDirMap_map_or_error_witness:
  "ReadDirMap (NewConfigReader env0 []) env0 ''conf'' =
     Return (Some [''app'' \<mapsto> ''port: 80''], None) \<and>
   ReadDirMap (NewConfigReader env0 [WithStrictMode True]) env0 ''conf'' =
     Return (None, Some (ProcessError ''bad.yaml'' (ParseError ''yaml'' (External ''malformed'')))) \<and>
   ReadDirMap (NewConfigReader env0 []) env0 ''empty'' = Return (Some Map.empty, None) \<and>
   ReadDirMap (NewConfigReader env0 []) env0 ''missing'' =
     Return (None, Some (PathInaccessible (External ''no such file or directory''))) \<and>
   (\<exists>m e. ReadDirMap (NewConfigReader env0 [WithStrictMode True]) env0 ''conf'' = Return (m, e) \<and>
      m = None \<and> e \<noteq> None)"
proof -
  have u: "\<forall>fid fd. formats (NewConfigReader env0 [WithStrictMode True]) fid = Some fd \<longrightarrow>
      fid = FormatUnknown \<or> Unmarshal fd \<noteq> None"
    by (auto simp: reader_eval WithStrictMode_def split: if_splits)
  obtain m e where r: "ReadDirMap (NewConfigReader env0 [WithStrictMode True]) env0 ''conf'' =
      Return (m, e)"
    using ReadDirMap_map_or_error [of "NewConfigReader env0 [WithStrictMode True]" env0 "''conf''"]
      u by blast
  then have "m = None \<longleftrightarrow> e \<noteq> None"
    using ReadDirMap_map_or_error [of "NewConfigReader env0 [WithStrictMode True]" env0 "''conf''" m e]
    by blast
  then show ?thesis using r conf_results by auto
qed

end
